(* ===== verification/Prelude.thy ===== *)
theory Prelude
  imports Main "HOL-Library.Word" "HOL-Library.AList" "HOL-Library.Char_ord"
    "HOL-Library.List_Lexorder" "HOL-Library.Multiset"
begin

unbundle bit_operations_syntax

text \<open>
  Shared vocabulary of the development: the machine integers of Go, run-time panics as values,
  Go maps as association lists, decimal printing, and the list lemmas the components share.

  A Go \<open>string\<close> and a Go \<open>[]byte\<close> are byte sequences: strings are \<^typ>\<open>string\<close> (one
  \<^typ>\<open>char\<close> per byte), payloads are lists of 8-bit words. Go's \<open>int\<close> is 64 bits wide. Lengths,
  offsets and indices are bounded by the length of a slice, so they are natural numbers or
  integers here; where a product of two arbitrary \<open>int\<close>s can overflow it is reduced by \<open>wrap64\<close>.
\<close>

text \<open>\<open>printing\<close> collects the equations that evaluate printed text, for the concrete runs of the witnesses.\<close>

named_theorems printing

subsection \<open>Types\<close>

type_synonym u8 = "8 word"
type_synonym u16 = "16 word"
type_synonym u32 = "32 word"
type_synonym u64 = "64 word"

text \<open>Instants are nanoseconds since the Unix epoch; durations are nanoseconds.\<close>

type_synonym time = int
type_synonym duration = int

text \<open>The ways the modelled code can panic at run time.\<close>

datatype panic =
    IndexOutOfRange
  | SliceOutOfRange
  | DivideByZero
  | MakeNegative
  | CloseOfClosedChannel
  | NilDereference

text \<open>A computation that may panic: \<open>Inl\<close> the panic, \<open>Inr\<close> the value.\<close>

type_synonym 'a go = "panic + 'a"

definition gbind :: "'e + 'a \<Rightarrow> ('a \<Rightarrow> 'e + 'b) \<Rightarrow> 'e + 'b" where
  "gbind m f = (case m of Inl e \<Rightarrow> Inl e | Inr x \<Rightarrow> f x)"

lemma gbind_simps [simp]:
  "gbind (Inl e) f = Inl e"
  "gbind (Inr x) f = f x"
  by (simp_all add: gbind_def)

lemma gbind_assoc: "gbind (gbind m f) g = gbind m (\<lambda>x. gbind (f x) g)"
  by (cases m) simp_all

lemma gbind_Inr_iff: "gbind m f = Inr y \<longleftrightarrow> (\<exists>x. m = Inr x \<and> f x = Inr y)"
  by (cases m) simp_all

lemma gbind_split: "P (gbind m f) \<longleftrightarrow> (\<forall>e. m = Inl e \<longrightarrow> P (Inl e)) \<and> (\<forall>x. m = Inr x \<longrightarrow> P (f x))"
  by (cases m) simp_all

text \<open>A loop over a list whose body may panic.\<close>

fun gfold :: "('s \<Rightarrow> 'a \<Rightarrow> 'e + 's) \<Rightarrow> 's \<Rightarrow> 'a list \<Rightarrow> 'e + 's" where
  "gfold f s [] = Inr s"
| "gfold f s (x # xs) = gbind (f s x) (\<lambda>s'. gfold f s' xs)"

lemma gfold_append: "gfold f s (xs @ ys) = gbind (gfold f s xs) (\<lambda>s'. gfold f s' ys)"
  by (induction xs arbitrary: s) (simp_all add: gbind_assoc)

subsection \<open>Integers\<close>

text \<open>The value of a 64-bit two's complement \<open>int\<close> after an overflowing operation.\<close>

definition wrap64 :: "int \<Rightarrow> int" where
  "wrap64 x = signed_take_bit 63 x"

lemma wrap64_range: "- (2 ^ 63) \<le> wrap64 x \<and> wrap64 x < 2 ^ 63"
  by (simp add: wrap64_def signed_take_bit_int_greater_eq_minus_exp signed_take_bit_int_less_exp
      del: power_numeral)

lemma wrap64_id: "- (2 ^ 63) \<le> x \<Longrightarrow> x < 2 ^ 63 \<Longrightarrow> wrap64 x = x"
  unfolding wrap64_def by (rule signed_take_bit_int_eq_self) simp_all

subsection \<open>Checked slice operations\<close>

text \<open>\<open>xs[i]\<close> and \<open>xs[i:j]\<close> with Go's bounds checks (the capacity of a slice is its length here).\<close>

definition gindex :: "'a list \<Rightarrow> nat \<Rightarrow> 'a go" where
  "gindex xs i = (if i < length xs then Inr (xs ! i) else Inl IndexOutOfRange)"

definition gslice :: "'a list \<Rightarrow> int \<Rightarrow> int \<Rightarrow> 'a list go" where
  "gslice xs i j =
     (if 0 \<le> i \<and> i \<le> j \<and> j \<le> int (length xs)
      then Inr (take (nat j - nat i) (drop (nat i) xs)) else Inl SliceOutOfRange)"

lemma gindex_ok [simp]: "i < length xs \<Longrightarrow> gindex xs i = Inr (xs ! i)"
  by (simp add: gindex_def)

lemma gslice_ok:
  "i \<le> j \<Longrightarrow> j \<le> length xs \<Longrightarrow> gslice xs (int i) (int j) = Inr (take (j - i) (drop i xs))"
  by (simp add: gslice_def)

subsection \<open>The last elements of a list\<close>

definition lastn :: "nat \<Rightarrow> 'a list \<Rightarrow> 'a list" where
  "lastn n xs = drop (length xs - n) xs"

lemma length_lastn [simp]: "length (lastn n xs) = min n (length xs)"
  by (simp add: lastn_def)

lemma lastn_short [simp]: "length xs \<le> n \<Longrightarrow> lastn n xs = xs"
  by (simp add: lastn_def)

lemma lastn_Nil [simp]: "lastn n [] = []"
  by (simp add: lastn_def)

lemma lastn_append_lastn [simp]: "lastn n (lastn n xs @ ys) = lastn n (xs @ ys)"
proof (cases "length xs \<le> n")
  case False
  then show ?thesis
    by (cases "length ys \<le> n") (simp_all add: lastn_def add.commute)
qed simp

lemma set_lastn_subset: "set (lastn n xs) \<subseteq> set xs"
  by (simp add: lastn_def set_drop_subset)

lemma lastn_snoc_full:
  "length xs = n \<Longrightarrow> 0 < n \<Longrightarrow> lastn n (xs @ [x]) = tl xs @ [x]"
  by (cases xs) (simp_all add: lastn_def)

lemma lastn_snoc_room: "length xs < n \<Longrightarrow> lastn n (xs @ [x]) = xs @ [x]"
  by simp

subsection \<open>Go maps\<close>

text \<open>
  A Go map is an association list with distinct keys. Reading a missing key gives the zero
  value of the element type, and \<open>m[k] += v\<close> creates the entry. The iteration order of
  \<open>range\<close> over a map is not specified by the language: where it matters, an operation takes the
  order as an argument.
\<close>

type_synonym ('k, 'v) gmap = "('k \<times> 'v) list"

definition wf_map :: "('k, 'v) gmap \<Rightarrow> bool" where
  "wf_map m = distinct (map fst m)"

definition map_get :: "('k, 'v::zero) gmap \<Rightarrow> 'k \<Rightarrow> 'v" where
  "map_get m k = (case map_of m k of None \<Rightarrow> 0 | Some v \<Rightarrow> v)"

definition gmap_add :: "('k, 'v::{zero,plus}) gmap \<Rightarrow> 'k \<Rightarrow> 'v \<Rightarrow> ('k, 'v) gmap" where
  "gmap_add m k v = AList.update k (map_get m k + v) m"

text \<open>The visiting order of a \<open>range\<close> loop: some permutation of the entries.\<close>

definition range_order :: "(('k, 'v) gmap \<Rightarrow> ('k, 'v) gmap) \<Rightarrow> bool" where
  "range_order visit \<longleftrightarrow> (\<forall>m. mset (visit m) = mset m)"

lemma range_order_id: "range_order (\<lambda>m. m)"
  by (simp add: range_order_def)

lemma range_order_rev: "range_order rev"
  by (simp add: range_order_def)

lemma range_order_set [simp]: "range_order visit \<Longrightarrow> set (visit m) = set m"
  unfolding range_order_def by (metis mset_eq_setD)

lemma wf_map_Nil [simp]: "wf_map []"
  by (simp add: wf_map_def)

lemma wf_map_update [simp]: "wf_map m \<Longrightarrow> wf_map (AList.update k v m)"
  by (simp add: wf_map_def distinct_update)

lemma wf_map_delete [simp]: "wf_map m \<Longrightarrow> wf_map (AList.delete k m)"
  by (simp add: wf_map_def distinct_delete)

lemma wf_map_add [simp]: "wf_map m \<Longrightarrow> wf_map (gmap_add m k v)"
  by (simp add: gmap_add_def)

lemma map_get_Nil [simp]: "map_get [] k = 0"
  by (simp add: map_get_def)

lemma map_get_update [simp]: "map_get (AList.update k v m) k' = (if k' = k then v else map_get m k')"
  by (simp add: map_get_def update_conv')

lemma map_get_add:
  "map_get (gmap_add m k v) k' = (if k' = k then map_get m k + v else map_get m k')"
  by (simp add: gmap_add_def)

lemma keys_map_add: "fst ` set (gmap_add m k v) = insert k (fst ` set m)"
  by (simp add: gmap_add_def update_conv' dom_map_of_conv_image_fst [symmetric])

lemma sum_list_update_new:
  fixes m :: "('k, 'v::comm_monoid_add) gmap"
  assumes "k \<notin> fst ` set m"
  shows "sum_list (map snd (AList.update k v m)) = sum_list (map snd m) + v"
  using assms by (induction m) (auto simp: add.assoc)

lemma sum_list_map_add:
  fixes m :: "('k, 'v::comm_monoid_add) gmap"
  assumes "wf_map m"
  shows "sum_list (map snd (gmap_add m k v)) = sum_list (map snd m) + v"
proof -
  have upd: "sum_list (map snd (AList.update k (map_get m k + v) m)) = sum_list (map snd m) + v"
    if "distinct (map fst m)" for m :: "('k, 'v) gmap"
    using that
  proof (induction m)
    case (Cons p m)
    obtain a b where p: "p = (a, b)" by (cases p)
    show ?case
    proof (cases "a = k")
      case True
      then show ?thesis by (simp add: p map_get_def ac_simps)
    next
      case False
      then have "map_get ((a, b) # m) k = map_get m k" by (simp add: map_get_def)
      with Cons False show ?thesis by (simp add: p add.assoc)
    qed
  qed simp
  from assms show ?thesis by (simp add: gmap_add_def wf_map_def upd)
qed

lemma map_of_eq_if_mset_eq:
  assumes "mset xs = mset ys" and "wf_map xs"
  shows "map_of xs = map_of ys"
proof -
  from assms have "mset (map fst xs) = mset (map fst ys)" by simp
  with assms have "distinct (map fst ys)"
    unfolding wf_map_def by (metis mset_eq_imp_distinct_iff)
  moreover have "set xs = set ys" using assms(1) by (rule mset_eq_setD)
  ultimately show ?thesis
    using assms(2) by (simp add: wf_map_def map_of_inject_set)
qed

subsection \<open>Decimal numerals\<close>

definition digit :: "nat \<Rightarrow> char" where
  "digit d = char_of (48 + d)"

text \<open>\<open>strconv\<close>'s decimal form of an unsigned integer, and of a signed one.\<close>

fun dec :: "nat \<Rightarrow> string" where
  "dec n = (if n < 10 then [digit n] else dec (n div 10) @ [digit (n mod 10)])"

declare dec.simps [simp del, printing]

definition dec_int :: "int \<Rightarrow> string" where
  "dec_int i = (if i < 0 then CHR ''-'' # dec (nat (- i)) else dec (nat i))"

definition is_digit :: "char \<Rightarrow> bool" where
  "is_digit c = (CHR ''0'' \<le> c \<and> c \<le> CHR ''9'')"

lemma is_digit_iff: "is_digit c \<longleftrightarrow> 48 \<le> (of_char c :: nat) \<and> (of_char c :: nat) \<le> 57"
  by (simp add: is_digit_def less_eq_char_def)

lemma of_char_digit: "d < 10 \<Longrightarrow> (of_char (digit d) :: nat) = 48 + d"
  by (simp add: digit_def)

text \<open>Evaluation of printed numerals.\<close>

lemma digit_chars [printing]:
  "digit 0 = CHR ''0''" "digit (Suc 0) = CHR ''1''" "digit 1 = CHR ''1''" "digit 2 = CHR ''2''" "digit 3 = CHR ''3''"
  "digit 4 = CHR ''4''" "digit 5 = CHR ''5''" "digit 6 = CHR ''6''" "digit 7 = CHR ''7''"
  "digit 8 = CHR ''8''" "digit 9 = CHR ''9''"
  by (code_simp)+

lemma is_digit_digit: "d < 10 \<Longrightarrow> is_digit (digit d)"
  by (simp add: is_digit_iff of_char_digit)

lemma digit_inject: "a < 10 \<Longrightarrow> b < 10 \<Longrightarrow> digit a = digit b \<longleftrightarrow> a = b"
  by (metis of_char_digit add_left_cancel)

lemma dec_nonempty [simp]: "dec n \<noteq> []"
  by (subst dec.simps) simp

lemma dec_digits: "c \<in> set (dec n) \<Longrightarrow> is_digit c"
proof (induction n rule: dec.induct)
  case (1 n)
  then show ?case
    by (subst (asm) (2) dec.simps) (auto simp: is_digit_digit split: if_splits)
qed

text \<open>Reading a numeral back: decimal printing loses nothing.\<close>

definition undec :: "string \<Rightarrow> nat" where
  "undec cs = foldl (\<lambda>a c. 10 * a + (of_char c - 48)) 0 cs"

lemma undec_dec [simp]: "undec (dec n) = n"
proof (induction n rule: dec.induct)
  case (1 n)
  show ?case
  proof (cases "n < 10")
    case True
    then show ?thesis by (subst dec.simps) (simp add: undec_def of_char_digit)
  next
    case False
    with "1.IH" have "undec (dec (n div 10)) = n div 10" by simp
    with False show ?thesis by (subst dec.simps) (simp add: undec_def of_char_digit)
  qed
qed

lemma dec_inject [simp]: "dec a = dec b \<longleftrightarrow> a = b"
  by (metis undec_dec)

subsection \<open>Splitting at a separator\<close>

lemma append_sep_inject:
  "c \<notin> set xs \<Longrightarrow> c \<notin> set ys \<Longrightarrow> xs @ c # us = ys @ c # vs \<longleftrightarrow> xs = ys \<and> us = vs"
proof (induction xs arbitrary: ys)
  case Nil
  then show ?case by (cases ys) auto
next
  case (Cons x xs)
  then show ?case by (cases ys) auto
qed

lemma not_digit_sep [simp]: "\<not> is_digit CHR ''.''" "\<not> is_digit CHR ''-''" "\<not> is_digit (CHR 0x7C)"
  by (simp_all add: is_digit_iff)

lemma sep_notin_dec [simp]:
  "CHR ''.'' \<notin> set (dec n)" "CHR ''-'' \<notin> set (dec n)" "CHR 0x7C \<notin> set (dec n)"
  using dec_digits not_digit_sep by blast+

end
