(* ===== verification/RingBuffer.thy ===== *)
theory RingBuffer
  imports Prelude
begin

text \<open>
  \<^verbatim>\<open>internal/model/ringbuffer.go\<close>: the fixed-capacity circular packet history of a flow, and the
  interface of a log that keeps its newest entries (\<open>bounded_log\<close>), which the packet history,
  the status log and the throughput history all provide.

  The buffer holds pointers; a nil pointer is \<^const>\<open>None\<close>. Every operation runs under the buffer's
  mutex, so it is one atomic step. The fields carry the prefix \<open>rb_\<close>. The element type is a parameter: the flows store
  \<open>PacketRecord\<close> values, which nothing changes after they have been added.
\<close>

subsection \<open>The interface: a log that keeps its newest entries\<close>

locale bounded_log =
  fixes inv :: "'s \<Rightarrow> bool"
    and add :: "'s \<Rightarrow> 'a \<Rightarrow> 'e + 's"
    and contents :: "'s \<Rightarrow> 'b list"
    and entry :: "'a \<Rightarrow> 'b"
    and cap :: "'s \<Rightarrow> nat"
  assumes bounded: "inv s \<Longrightarrow> length (contents s) \<le> cap s"
    and add_ok: "inv s \<Longrightarrow> \<exists>s'. add s x = Inr s' \<and> inv s' \<and> cap s' = cap s \<and>
                   contents s' = lastn (cap s) (contents s @ [entry x])"
begin

lemma add_keeps: "inv s \<Longrightarrow> add s x = Inr s' \<Longrightarrow> inv s' \<and> cap s' = cap s"
  using add_ok [of s x] by auto

lemma add_contents: "inv s \<Longrightarrow> add s x = Inr s' \<Longrightarrow> contents s' = lastn (cap s) (contents s @ [entry x])"
  using add_ok [of s x] by auto

lemma add_all:
  "inv s \<Longrightarrow> \<exists>s'. gfold add s xs = Inr s' \<and> inv s' \<and> cap s' = cap s \<and>
     contents s' = lastn (cap s) (contents s @ map entry xs)"
proof (induction xs arbitrary: s)
  case Nil
  then show ?case using bounded by simp
next
  case (Cons x xs)
  from add_ok [OF Cons.prems, of x] obtain s1 where
    s1: "add s x = Inr s1" "inv s1" "cap s1 = cap s" "contents s1 = lastn (cap s) (contents s @ [entry x])"
    by blast
  from Cons.IH [OF s1(2)] s1 show ?case by auto
qed

end

subsection \<open>State\<close>

record 'a ring_buffer =
  rb_packets :: "'a option list"
  rb_capacity :: nat
  rb_writeIdx :: nat
  rb_readIdx :: nat
  rb_count :: nat

subsection \<open>Operations\<close>

definition NewRingBuffer :: "int \<Rightarrow> 'a ring_buffer go" where
  "NewRingBuffer cap =
     (if cap < 0 then Inl MakeNegative
      else Inr \<lparr>rb_packets = replicate (nat cap) None, rb_capacity = nat cap,
                rb_writeIdx = 0, rb_readIdx = 0, rb_count = 0\<rparr>)"

definition Add :: "'a ring_buffer \<Rightarrow> 'a option \<Rightarrow> 'a ring_buffer go" where
  "Add rb pkt =
     (if \<not> rb_writeIdx rb < length (rb_packets rb) then Inl IndexOutOfRange
      else if rb_capacity rb = 0 then Inl DivideByZero
      else
        let rb1 = rb\<lparr>rb_packets := (rb_packets rb)[rb_writeIdx rb := pkt],
                     rb_writeIdx := (rb_writeIdx rb + 1) mod rb_capacity rb\<rparr>
        in Inr (if rb_count rb1 < rb_capacity rb1 then rb1\<lparr>rb_count := rb_count rb1 + 1\<rparr>
                else rb1\<lparr>rb_readIdx := (rb_readIdx rb1 + 1) mod rb_capacity rb1\<rparr>))"

text \<open>The loop of \<open>GetAll\<close>: \<open>n\<close> iterations are left, \<open>i\<close> is the loop counter.\<close>

fun get_all_loop ::
    "'a option list \<Rightarrow> nat \<Rightarrow> nat \<Rightarrow> nat \<Rightarrow> nat \<Rightarrow> 'a list \<Rightarrow> 'a list go" where
  "get_all_loop ps ri cap i 0 result = Inr result"
| "get_all_loop ps ri cap i (Suc n) result =
     (if cap = 0 then Inl DivideByZero
      else gbind (gindex ps ((ri + i) mod cap)) (\<lambda>p.
        get_all_loop ps ri cap (i + 1) n
          (case p of None \<Rightarrow> result | Some x \<Rightarrow> result @ [x])))"

definition GetAll :: "'a ring_buffer \<Rightarrow> 'a list go" where
  "GetAll rb =
     (if rb_count rb = 0 then Inr []
      else get_all_loop (rb_packets rb) (rb_readIdx rb) (rb_capacity rb) 0 (rb_count rb) [])"

definition Len :: "'a ring_buffer \<Rightarrow> nat" where
  "Len rb = rb_count rb"

definition Clear :: "'a ring_buffer \<Rightarrow> 'a ring_buffer" where
  "Clear rb = rb\<lparr>rb_packets := replicate (rb_capacity rb) None, rb_writeIdx := 0, rb_readIdx := 0, rb_count := 0\<rparr>"

text \<open>\<open>unsafe.Sizeof\<close> of a pointer on the 64-bit targets the program is built for.\<close>

definition ptrSize :: int where
  "ptrSize = 8"

definition MemorySize :: "'a ring_buffer \<Rightarrow> int" where
  "MemorySize rb = wrap64 (wrap64 (int (rb_capacity rb) * ptrSize) + 64)"

definition EstimateRingBufferSize :: "int \<Rightarrow> int \<Rightarrow> int" where
  "EstimateRingBufferSize numFlows packetCapacity =
     wrap64 (wrap64 (numFlows * packetCapacity) * ptrSize)"

subsection \<open>Invariant and abstraction\<close>

text \<open>
  The stored entries, oldest first: \<open>count\<close> slots from \<open>readIdx\<close> on, wrapping around. The
  write index is \<open>count\<close> slots after the read index; while the buffer fills up the read
  index stays at 0.
\<close>

definition ring_slots :: "'a ring_buffer \<Rightarrow> 'a option list" where
  "ring_slots rb = map (\<lambda>i. rb_packets rb ! ((rb_readIdx rb + i) mod rb_capacity rb)) [0..<rb_count rb]"

definition ring_contents :: "'a ring_buffer \<Rightarrow> 'a list" where
  "ring_contents rb = List.map_filter id (ring_slots rb)"

definition ring_inv :: "'a ring_buffer \<Rightarrow> bool" where
  "ring_inv rb \<longleftrightarrow>
     0 < rb_capacity rb \<and> length (rb_packets rb) = rb_capacity rb \<and> rb_count rb \<le> rb_capacity rb \<and>
     rb_readIdx rb < rb_capacity rb \<and> rb_writeIdx rb = (rb_readIdx rb + rb_count rb) mod rb_capacity rb \<and>
     (rb_count rb < rb_capacity rb \<longrightarrow> rb_readIdx rb = 0)"

lemma ring_invI_new: "0 < cap \<Longrightarrow> NewRingBuffer cap = Inr rb \<Longrightarrow> ring_inv rb"
  by (auto simp: NewRingBuffer_def ring_inv_def split: if_splits)

lemma ring_slots_new: "NewRingBuffer cap = Inr rb \<Longrightarrow> ring_slots rb = []"
  by (auto simp: NewRingBuffer_def ring_slots_def split: if_splits)

lemma ring_capacity_new: "NewRingBuffer cap = Inr rb \<Longrightarrow> rb_capacity rb = nat cap"
  by (auto simp: NewRingBuffer_def split: if_splits)

lemma ring_inv_clear: "ring_inv rb \<Longrightarrow> ring_inv (Clear rb) \<and> ring_slots (Clear rb) = []"
  by (simp add: ring_inv_def Clear_def ring_slots_def)

lemma length_ring_slots [simp]: "length (ring_slots rb) = rb_count rb"
  by (simp add: ring_slots_def)

text \<open>Adding to a buffer that still has room, and to a full one.\<close>

lemma add_room:
  assumes inv: "ring_inv rb" and room: "rb_count rb < rb_capacity rb"
  shows "Add rb x = Inr (rb\<lparr>rb_packets := (rb_packets rb)[rb_count rb := x],
           rb_writeIdx := (rb_count rb + 1) mod rb_capacity rb, rb_count := rb_count rb + 1\<rparr>)"
  using inv room by (simp add: Add_def ring_inv_def Let_def)

lemma add_full:
  assumes inv: "ring_inv rb" and full: "rb_count rb = rb_capacity rb"
  shows "Add rb x = Inr (rb\<lparr>rb_packets := (rb_packets rb)[rb_readIdx rb := x],
           rb_writeIdx := (rb_readIdx rb + 1) mod rb_capacity rb,
           rb_readIdx := (rb_readIdx rb + 1) mod rb_capacity rb\<rparr>)"
  using inv full by (simp add: Add_def ring_inv_def Let_def)

lemma add_room_slots:
  assumes inv: "ring_inv rb" and room: "rb_count rb < rb_capacity rb" and add: "Add rb x = Inr rb'"
  shows "ring_inv rb' \<and> rb_capacity rb' = rb_capacity rb \<and> ring_slots rb' = ring_slots rb @ [x]"
proof -
  let ?p = "(rb_packets rb)[rb_count rb := x]"
  have ri: "rb_readIdx rb = 0" and len: "length (rb_packets rb) = rb_capacity rb"
    using inv room by (simp_all add: ring_inv_def)
  have rb': "rb' = rb\<lparr>rb_packets := ?p, rb_writeIdx := (rb_count rb + 1) mod rb_capacity rb, rb_count := rb_count rb + 1\<rparr>"
    using add add_room [OF inv room, of x] by simp
  have "map (\<lambda>i. ?p ! (i mod rb_capacity rb)) [0..<rb_count rb] =
        map (\<lambda>i. rb_packets rb ! (i mod rb_capacity rb)) [0..<rb_count rb]"
    using room by (intro map_cong) auto
  then show ?thesis
    using inv room len by (simp add: rb' ring_slots_def ri ring_inv_def)
qed

lemma rotate_index:
  assumes "r < c" and "i < c - 1"
  shows "((r + 1) mod c + i) mod c = (r + (i + 1)) mod (c::nat)"
    and "r \<noteq> (r + (i + 1)) mod c"
proof -
  have "((r + 1) mod c + i) mod c = (r + 1 + i) mod c"
    by (rule mod_add_left_eq)
  then show "((r + 1) mod c + i) mod c = (r + (i + 1)) mod c"
    by (simp only: ac_simps)
  show "r \<noteq> (r + (i + 1)) mod c"
    using assms by (cases "r + (i + 1) < c") (auto simp: mod_if)
qed

lemma add_full_slots:
  assumes inv: "ring_inv rb" and full: "rb_count rb = rb_capacity rb" and add: "Add rb x = Inr rb'"
  shows "ring_inv rb' \<and> rb_capacity rb' = rb_capacity rb \<and> ring_slots rb' = tl (ring_slots rb) @ [x]"
proof -
  let ?c = "rb_capacity rb" and ?r = "rb_readIdx rb"
  let ?p = "(rb_packets rb)[?r := x]" and ?r' = "(rb_readIdx rb + 1) mod rb_capacity rb"
  have c: "0 < ?c" and len: "length (rb_packets rb) = ?c" and r: "?r < ?c"
    using inv by (simp_all add: ring_inv_def)
  have rb': "rb' = rb\<lparr>rb_packets := ?p, rb_writeIdx := ?r', rb_readIdx := ?r'\<rparr>"
    using add add_full [OF inv full, of x] by simp
  have last: "(?r' + (?c - 1)) mod ?c = ?r"
    using c r by (cases "Suc ?r = ?c") auto
  have init: "map (\<lambda>i. ?p ! ((?r' + i) mod ?c)) [0..<?c - 1] =
      map (\<lambda>i. rb_packets rb ! ((?r + (i + 1)) mod ?c)) [0..<?c - 1]"
    by (intro map_cong refl)
      (simp only: rotate_index [OF r] atLeastLessThan_iff set_upt nth_list_update_neq simp_thms)
  have "ring_slots rb' = map (\<lambda>i. ?p ! ((?r' + i) mod ?c)) ([0..<?c - 1] @ [?c - 1])"
    using c full by (simp add: rb' ring_slots_def flip: upt_Suc_append)
  also have "\<dots> = map (\<lambda>i. rb_packets rb ! ((?r + (i + 1)) mod ?c)) [0..<?c - 1] @ [x]"
    using init last len r by simp
  also have "map (\<lambda>i. rb_packets rb ! ((?r + (i + 1)) mod ?c)) [0..<?c - 1] = tl (ring_slots rb)"
    using c full by (intro nth_equalityI) (auto simp: ring_slots_def nth_tl less_diff_conv)
  finally show ?thesis
    using inv full c by (simp add: rb' ring_inv_def)
qed


lemma add_slots:
  assumes inv: "ring_inv rb"
  shows "\<exists>rb'. Add rb x = Inr rb' \<and> ring_inv rb' \<and> rb_capacity rb' = rb_capacity rb \<and>
           ring_slots rb' = lastn (rb_capacity rb) (ring_slots rb @ [x])"
proof (cases "rb_count rb < rb_capacity rb")
  case True
  then show ?thesis
    using add_room [OF inv True, of x] add_room_slots [OF inv True] lastn_snoc_room by force
next
  case False
  then have full: "rb_count rb = rb_capacity rb" and pos: "0 < rb_capacity rb"
    using inv by (simp_all add: ring_inv_def)
  have "lastn (rb_capacity rb) (ring_slots rb @ [x]) = tl (ring_slots rb) @ [x]"
    using full pos by (intro lastn_snoc_full) simp_all
  then show ?thesis
    using add_full [OF inv full, of x] add_full_slots [OF inv full] by force
qed

text \<open>The packet history is a bounded log of its slots.\<close>

interpretation ring: bounded_log ring_inv Add ring_slots "\<lambda>x. x" rb_capacity
proof unfold_locales
  fix rb :: "'a ring_buffer" and x
  assume inv: "ring_inv rb"
  then show "length (ring_slots rb) \<le> rb_capacity rb"
    by (simp add: ring_inv_def)
  show "\<exists>rb'. Add rb x = Inr rb' \<and> ring_inv rb' \<and> rb_capacity rb' = rb_capacity rb \<and>
          ring_slots rb' = lastn (rb_capacity rb) (ring_slots rb @ [x])"
    by (rule add_slots [OF inv])
qed

text \<open>\<open>GetAll\<close> lists the non-nil slots in order.\<close>

lemma get_all_loop_slots:
  assumes "length ps = cap" and "0 < cap"
  shows "get_all_loop ps ri cap i n acc =
           Inr (acc @ List.map_filter id (map (\<lambda>j. ps ! ((ri + j) mod cap)) [i..<i + n]))"
proof (induction n arbitrary: i acc)
  case (Suc n)
  have "[i..<i + Suc n] = i # [i + 1..<(i + 1) + n]"
    by (simp add: upt_rec)
  with assms Suc show ?case
    by (simp add: map_filter_simps split: option.split)
qed (simp add: map_filter_simps)

lemma GetAll_contents:
  assumes "ring_inv rb"
  shows "GetAll rb = Inr (ring_contents rb)"
  using assms
  by (simp add: GetAll_def ring_contents_def ring_slots_def ring_inv_def get_all_loop_slots
      map_filter_simps)

lemma map_filter_id_Some [simp]: "List.map_filter id (map Some xs) = xs"
  by (induction xs) (simp_all add: map_filter_simps)

lemma lastn_map: "lastn n (map f xs) = map f (lastn n xs)"
  by (simp add: lastn_def drop_map)

lemma GetAll_slots:
  "ring_inv rb \<Longrightarrow> ring_slots rb = map Some xs \<Longrightarrow> GetAll rb = Inr xs"
  by (simp add: GetAll_contents ring_contents_def)

subsection \<open>Properties\<close>

text \<open>
  C20: The packet history keeps exactly the newest packets. From a new buffer of any positive
  capacity, adding any list of packets never panics, and \<open>GetAll\<close> then returns the last
  \<open>capacity\<close> of them, oldest first; \<open>Len\<close> is their number.
\<close>

theorem ring_keeps_newest:
  fixes xs :: "'a list"
  assumes "0 < cap"
  shows "\<exists>rb rb'. NewRingBuffer cap = Inr rb \<and> gfold Add rb (map Some xs) = Inr rb' \<and>
           GetAll rb' = Inr (lastn (nat cap) xs) \<and> Len rb' = min (nat cap) (length xs)"
proof -
  obtain rb :: "'a ring_buffer" where new: "NewRingBuffer cap = Inr rb"
    using assms by (simp add: NewRingBuffer_def)
  from ring.add_all [OF ring_invI_new [OF assms new], of "map Some xs"]
  obtain rb' where rb': "gfold Add rb (map Some xs) = Inr rb'" "ring_inv rb'"
      "ring_slots rb' = map Some (lastn (nat cap) xs)"
    by (auto simp: ring_slots_new [OF new] ring_capacity_new [OF new] lastn_map)
  have "Len rb' = length (ring_slots rb')"
    by (simp add: Len_def)
  with rb' new GetAll_slots [OF rb'(2,3)] show ?thesis by auto
qed

theorem ring_keeps_newest_witness:
  "\<exists>rb rb'. NewRingBuffer 2 = Inr rb \<and> gfold Add rb (map Some [10, 20, 30::nat]) = Inr rb' \<and>
     GetAll rb' = Inr (lastn (nat 2) [10, 20, 30]) \<and> Len rb' = min (nat 2) (length [10, 20, 30::nat])"
  by (rule ring_keeps_newest) simp

text \<open>A cleared buffer is a new one of the same capacity.\<close>

lemma clear_is_new: "Inr (Clear rb) = NewRingBuffer (int (rb_capacity rb))"
  by (simp add: NewRingBuffer_def Clear_def)

text \<open>
  The size estimates are exact as long as the product fits an \<open>int\<close>: for every buffer the
  aggregator creates (at most 50000 entries) \<open>MemorySize\<close> is eight bytes an entry plus 64, and
  the estimate for a number of flows is eight bytes an entry for each of them.
\<close>

theorem ring_size_estimates_exact:
  assumes "rb_capacity rb \<le> 50000" and "0 \<le> flows" and "flows \<le> 2 ^ 32"
  shows "MemorySize rb = 8 * int (rb_capacity rb) + 64
       \<and> EstimateRingBufferSize flows (int (rb_capacity rb)) = 8 * (flows * int (rb_capacity rb))"
proof -
  define p where "p = flows * int (rb_capacity rb)"
  have "p \<le> 2 ^ 32 * 50000"
    unfolding p_def using assms by (intro mult_mono) auto
  moreover have "0 \<le> p"
    using assms by (simp add: p_def)
  ultimately have "EstimateRingBufferSize flows (int (rb_capacity rb)) = 8 * p"
    by (simp add: EstimateRingBufferSize_def ptrSize_def wrap64_id flip: p_def)
  then show ?thesis
    using assms(1) by (simp add: MemorySize_def ptrSize_def wrap64_id p_def)
qed

theorem ring_size_estimates_exact_witness:
  "MemorySize \<lparr>rb_packets = [] :: nat option list, rb_capacity = 5000, rb_writeIdx = 0, rb_readIdx = 0, rb_count = 0\<rparr> = 40064
   \<and> EstimateRingBufferSize 3 5000 = 120000"
  using ring_size_estimates_exact
    [of "\<lparr>rb_packets = [] :: nat option list, rb_capacity = 5000, rb_writeIdx = 0, rb_readIdx = 0, rb_count = 0\<rparr>" 3]
  by simp

end
