(* ===== verification/Packet.thy ===== *)
theory Packet
  imports RingBuffer
begin

text \<open>
  \<^verbatim>\<open>internal/model/packet.go\<close> and \<^verbatim>\<open>stats.go\<close>: the event a captured packet becomes, the records
  of a flow, addresses, and protocol names. A \<open>net.IP\<close> is nil (\<^const>\<open>None\<close>) or a byte slice; the
  parts of the standard library's \<open>net\<close> package the program uses are modelled here.

  A flow holds its packet history by pointer: \<open>flow_PacketHistory\<close> is an address of the store of
  \<^verbatim>\<open>Aggregator\<close>.
\<close>

subsection \<open>Data\<close>

record PacketEvent =
  evt_TimestampNs :: u64
  evt_Hash :: u32
  evt_Saddr :: u32
  evt_Daddr :: u32
  evt_Sport :: u16
  evt_Dport :: u16
  evt_Protocol :: u8
  evt_ProbePoint :: u8
  evt_Pad1 :: u16
  evt_Len :: u32
  evt_CpuId :: u32
  evt_QueueMapping :: u16
  evt_Pad2 :: u16
  evt_Payload :: "u8 list"

record DNSQuery =
  dq_Timestamp :: time
  dq_Domain :: string
  dq_QueryType :: string
  dq_IsResponse :: bool
  dq_ResponseCode :: string
  dq_Direction :: string

type_synonym net_IP = "u8 list option"

record PacketRecord =
  rec_Timestamp :: time
  rec_SrcIP :: net_IP
  rec_SrcPort :: u16
  rec_DstIP :: net_IP
  rec_DstPort :: u16
  rec_Length :: u32
  rec_Direction :: string
  rec_TCPFlags :: u8
  rec_DNSQuery :: "DNSQuery option"

record TCPStateChange =
  sc_Timestamp :: time
  sc_OldState :: string
  sc_NewState :: string
  sc_Description :: string

record Flow =
  flow_SrcIP :: net_IP
  flow_DstIP :: net_IP
  flow_Protocol :: string
  flow_SrcPorts :: "(u16, u64) gmap"
  flow_DstPorts :: "(u16, u64) gmap"
  flow_TopSrcPort :: u16
  flow_TopDstPort :: u16
  flow_PacketCount :: u64
  flow_ByteCount :: u64
  flow_LastPacketTime :: time
  flow_FirstPacketTime :: time
  flow_ForwardPackets :: u64
  flow_ForwardBytes :: u64
  flow_ReversePackets :: u64
  flow_ReverseBytes :: u64
  flow_TCPFlags :: u8
  flow_TCPRetransmits :: u32
  flow_TCPOutOfOrder :: u32
  flow_State :: string
  flow_PacketHistory :: nat
  flow_StateChanges :: "TCPStateChange list"
  flow_DNSQueries :: "DNSQuery list"
  flow_DNSQueryNames :: "(string, u64) gmap"
  flow_DNSFailures :: u64
  flow_DNSLastQuery :: time

record FlowKey =
  key_SrcIP :: u32
  key_DstIP :: u32
  key_SrcPort :: u16
  key_DstPort :: u16
  key_Protocol :: u8

definition ReverseFlowKey :: "FlowKey \<Rightarrow> FlowKey" where
  "ReverseFlowKey k =
     \<lparr>key_SrcIP = key_DstIP k, key_DstIP = key_SrcIP k,
      key_SrcPort = key_DstPort k, key_DstPort = key_SrcPort k,
      key_Protocol = key_Protocol k\<rparr>"

subsection \<open>The parts of package \<open>net\<close> the program uses\<close>

definition v4InV6Prefix :: "u8 list" where
  "v4InV6Prefix = replicate 10 0 @ [255, 255]"

text \<open>\<open>net.IPv4\<close> returns the 16-byte form of an IPv4 address.\<close>

definition net_IPv4 :: "u8 \<Rightarrow> u8 \<Rightarrow> u8 \<Rightarrow> u8 \<Rightarrow> net_IP" where
  "net_IPv4 a b c d = Some (v4InV6Prefix @ [a, b, c, d])"

text \<open>\<open>IP.To4\<close>: the four bytes of an IPv4 address in either form, nil for anything else.\<close>

definition To4 :: "net_IP \<Rightarrow> u8 list option" where
  "To4 ip = (case ip of None \<Rightarrow> None
     | Some bs \<Rightarrow>
         if length bs = 4 then Some bs
         else if length bs = 16 \<and> take 12 bs = v4InV6Prefix then Some (drop 12 bs)
         else None)"

definition dotted :: "u8 list \<Rightarrow> string" where
  "dotted bs = (case map (\<lambda>b. dec (unat b)) bs of
      [] \<Rightarrow> [] | s # ss \<Rightarrow> s @ concat (map (\<lambda>t. CHR ''.'' # t) ss))"

text \<open>
  The IPv6 text of 16 bytes: eight groups of lower-case hexadecimal, the first longest run of at
  least two zero groups written as \<open>::\<close>. Any other length is a question mark and the bytes in
  hexadecimal.
\<close>

definition hexdigit :: "nat \<Rightarrow> char" where
  "hexdigit d = (if d < 10 then digit d else char_of (87 + d))"

fun hex :: "nat \<Rightarrow> string" where
  "hex n = (if n < 16 then [hexdigit n] else hex (n div 16) @ [hexdigit (n mod 16)])"

declare hex.simps [simp del]

definition v6_groups :: "u8 list \<Rightarrow> nat list" where
  "v6_groups bs = map (\<lambda>i. 256 * unat (bs ! (2 * i)) + unat (bs ! (2 * i + 1))) [0..<8]"

definition zero_run :: "nat list \<Rightarrow> nat \<times> nat" where
  "zero_run gs = foldl (\<lambda>(zs, ze) i.
       let l = length (takeWhile (\<lambda>g. g = 0) (drop i gs))
       in if 2 \<le> l \<and> ze - zs < l then (i, i + l) else (zs, ze)) (255, 255) [0..<8]"

definition v6_text :: "u8 list \<Rightarrow> string" where
  "v6_text bs = (let gs = v6_groups bs; (zs, ze) = zero_run gs in
     concat (map (\<lambda>i. if zs \<le> i \<and> i < ze then (if i = zs then ''::'' else [])
                      else (if 0 < i \<and> i \<noteq> ze then '':'' else []) @ hex (gs ! i)) [0..<8]))"

definition IP_String :: "net_IP \<Rightarrow> string" where
  "IP_String ip = (case ip of None \<Rightarrow> ''<nil>''
     | Some bs \<Rightarrow>
         if bs = [] then ''<nil>''
         else if length bs \<noteq> 4 \<and> length bs \<noteq> 16
         then CHR ''?'' # concat (map (\<lambda>b. [hexdigit (unat b div 16), hexdigit (unat b mod 16)]) bs)
         else (case To4 ip of Some q \<Rightarrow> dotted q | None \<Rightarrow> v6_text bs))"

subsection \<open>Addresses and protocol names\<close>

definition IPFromUint32 :: "u32 \<Rightarrow> net_IP" where
  "IPFromUint32 ip = net_IPv4 (ucast (drop_bit 24 ip)) (ucast (drop_bit 16 ip))
                              (ucast (drop_bit 8 ip)) (ucast ip)"

definition IPToUint32 :: "net_IP \<Rightarrow> u32" where
  "IPToUint32 ip = (case ip of None \<Rightarrow> 0 | Some _ \<Rightarrow>
     (case To4 ip of None \<Rightarrow> 0
      | Some ip4 \<Rightarrow> push_bit 24 (ucast (ip4 ! 0)) OR push_bit 16 (ucast (ip4 ! 1)) OR
                    push_bit 8 (ucast (ip4 ! 2)) OR ucast (ip4 ! 3)))"

definition ProtocolName :: "u8 \<Rightarrow> string" where
  "ProtocolName proto =
     (if proto = 1 then ''icmp''
      else if proto = 2 then ''igmp''
      else if proto = 6 then ''tcp''
      else if proto = 17 then ''udp''
      else if proto = 41 then ''ipv6''
      else if proto = 47 then ''gre''
      else if proto = 50 then ''esp''
      else if proto = 51 then ''ah''
      else if proto = 88 then ''eigrp''
      else if proto = 89 then ''ospf''
      else if proto = 132 then ''sctp''
      else ''other'')"

subsection \<open>Statistics records\<close>

record InterfaceStats =
  if_Name :: string
  if_BytesIn :: u64
  if_BytesOut :: u64
  if_PacketsIn :: u64
  if_PacketsOut :: u64
  if_ErrorsIn :: u32
  if_ErrorsOut :: u32
  if_DroppedIn :: u32
  if_DroppedOut :: u32
  if_LastUpdated :: time

subsection \<open>Lemmas\<close>

lemma ReverseFlowKey_involutive: "ReverseFlowKey (ReverseFlowKey k) = k"
  by (simp add: ReverseFlowKey_def)

lemma To4_IPv4 [simp]: "To4 (net_IPv4 a b c d) = Some [a, b, c, d]"
  by (simp add: To4_def net_IPv4_def v4InV6Prefix_def)

lemma IP_String_IPv4: "IP_String (net_IPv4 a b c d) = dotted [a, b, c, d]"
  using To4_IPv4 [of a b c d]
  by (simp add: IP_String_def net_IPv4_def v4InV6Prefix_def)

lemma IPToUint32_IPFromUint32 [simp]: "IPToUint32 (IPFromUint32 ip) = ip"
proof -
  have "IPToUint32 (IPFromUint32 ip) =
      push_bit 24 (ucast (ucast (drop_bit 24 ip) :: u8)) OR push_bit 16 (ucast (ucast (drop_bit 16 ip) :: u8)) OR
      push_bit 8 (ucast (ucast (drop_bit 8 ip) :: u8)) OR ucast (ucast ip :: u8)"
    using To4_IPv4 by (simp add: IPToUint32_def IPFromUint32_def net_IPv4_def)
  also have "\<dots> = ip"
  proof (rule bit_word_eqI)
    fix n
    assume "n < LENGTH(32)"
    then show "bit (push_bit 24 (ucast (ucast (drop_bit 24 ip) :: u8)) OR push_bit 16 (ucast (ucast (drop_bit 16 ip) :: u8)) OR
      push_bit 8 (ucast (ucast (drop_bit 8 ip) :: u8)) OR (ucast (ucast ip :: u8) :: u32)) n = bit ip n"
      by (cases "n < 16"; cases "n < 24") (auto simp: bit_simps)
  qed
  finally show ?thesis .
qed

lemma IPFromUint32_inject [simp]: "IPFromUint32 a = IPFromUint32 b \<longleftrightarrow> a = b"
  by (metis IPToUint32_IPFromUint32)

lemma dotted_4: "dotted [a, b, c, d] =
    dec (unat a) @ CHR ''.'' # dec (unat b) @ CHR ''.'' # dec (unat c) @ CHR ''.'' # dec (unat d)"
  by (simp add: dotted_def)

lemma dotted_inject: "dotted [a, b, c, d] = dotted [a', b', c', d'] \<longleftrightarrow> [a, b, c, d] = [a', b', c', d']"
  by (simp add: dotted_4 append_sep_inject word_unat_eq_iff)

lemma dotted_seps: "CHR ''-'' \<notin> set (dotted [a, b, c, d])" "CHR 0x7C \<notin> set (dotted [a, b, c, d])"
  by (simp_all add: dotted_4)

text \<open>The text of an address, as the flow keys and the dashboard use it.\<close>

definition ip_text :: "u32 \<Rightarrow> string" where
  "ip_text ip = IP_String (IPFromUint32 ip)"

lemma ip_text_dotted:
  "ip_text ip = dotted [ucast (drop_bit 24 ip), ucast (drop_bit 16 ip), ucast (drop_bit 8 ip), ucast ip]"
  by (simp add: ip_text_def IPFromUint32_def IP_String_IPv4)

lemma ip_text_inject [simp]: "ip_text a = ip_text b \<longleftrightarrow> a = b"
proof
  assume "ip_text a = ip_text b"
  then have "IPFromUint32 a = IPFromUint32 b"
    by (simp add: ip_text_dotted dotted_inject IPFromUint32_def)
  then show "a = b" by simp
qed simp

lemma ip_text_seps [simp]: "CHR ''-'' \<notin> set (ip_text ip)" "CHR 0x7C \<notin> set (ip_text ip)"
  by (simp_all add: ip_text_dotted dotted_seps)

text \<open>
  \<open>ProtocolName\<close> names eleven protocols apart from each other and merges all others.
\<close>

definition known_protocols :: "u8 list" where
  "known_protocols = [1, 2, 6, 17, 41, 47, 50, 51, 88, 89, 132]"

lemma ProtocolName_other: "ProtocolName p = ''other'' \<longleftrightarrow> p \<notin> set known_protocols"
  by (simp add: ProtocolName_def known_protocols_def)

lemma ProtocolName_inj_on: "inj_on ProtocolName (set known_protocols)"
  by (rule inj_onI) (auto simp: known_protocols_def ProtocolName_def)

lemma ProtocolName_eq_iff:
  "ProtocolName p = ProtocolName q \<longleftrightarrow>
     p = q \<or> p \<notin> set known_protocols \<and> q \<notin> set known_protocols"
  by (metis ProtocolName_other ProtocolName_inj_on inj_on_eq_iff)

lemma ProtocolName_tcp [simp]: "ProtocolName p = ''tcp'' \<longleftrightarrow> p = 6"
  by (simp add: ProtocolName_def)

lemma ProtocolName_no_sep: "CHR 0x7C \<notin> set (ProtocolName p)"
  by (simp add: ProtocolName_def)

subsection \<open>Properties\<close>

text \<open>
  C39: Converting an address to \<open>net.IP\<close> and back gives the same 32-bit value, the conversion
  is injective, and so is its dotted-decimal text: two addresses print alike only if they are
  equal. Swapping the ends of a flow key twice gives the key back.
\<close>

theorem address_conversions_lossless:
  "IPToUint32 (IPFromUint32 ip) = ip
   \<and> (IP_String (IPFromUint32 ip) = IP_String (IPFromUint32 ip') \<longleftrightarrow> ip = ip')
   \<and> IP_String (IPFromUint32 ip) =
       dotted [ucast (drop_bit 24 ip), ucast (drop_bit 16 ip), ucast (drop_bit 8 ip), ucast ip]
   \<and> ReverseFlowKey (ReverseFlowKey k) = k"
  using ip_text_inject [of ip ip'] ip_text_dotted [of ip]
  by (simp add: ip_text_def ReverseFlowKey_involutive)

end
