(* ===== verification/Dns.thy ===== *)
theory Dns
  imports Packet
begin

text \<open>
  \<^verbatim>\<open>internal/parser/dns.go\<close>: the DNS message parser. Every index and slice expression of the
  source is checked here, so that reading outside the payload would be a panic of the model.
\<close>

subsection \<open>Data\<close>

record DNSQuestion =
  q_Name :: string
  q_Type :: u16
  q_Class :: u16

record DNSResponse =
  resp_Questions :: "DNSQuestion list"
  resp_ResponseCode :: u8
  resp_IsResponse :: bool

subsection \<open>Bytes\<close>

text \<open>\<open>string(b)\<close> of a byte slice, and its inverse.\<close>

definition bytes_string :: "u8 list \<Rightarrow> string" where
  "bytes_string bs = map (\<lambda>b. char_of (unat b)) bs"

definition string_bytes :: "string \<Rightarrow> u8 list" where
  "string_bytes s = map (\<lambda>c. word_of_nat (of_char c)) s"

lemma bytes_string_bytes [simp]: "bytes_string (string_bytes s) = s"
proof -
  have "char_of (unat (word_of_nat (of_char c) :: u8)) = c" for c
    by (simp add: unat_of_nat)
  then show ?thesis by (simp add: bytes_string_def string_bytes_def comp_def)
qed

lemma length_string_bytes [simp]: "length (string_bytes s) = length s"
  by (simp add: string_bytes_def)

text \<open>\<open>binary.BigEndian.Uint16\<close> reads the first two bytes of its argument.\<close>

definition be16 :: "u8 list \<Rightarrow> u16 go" where
  "be16 b = gbind (gindex b 1) (\<lambda>b1. gbind (gindex b 0) (\<lambda>b0.
     Inr (ucast b1 OR push_bit 8 (ucast b0))))"

definition be16_bytes :: "u16 \<Rightarrow> u8 list" where
  "be16_bytes w = [ucast (drop_bit 8 w), ucast w]"

lemma be16_pair [simp]: "be16 (a # b # bs) = Inr (ucast b OR push_bit 8 (ucast a))"
  by (simp add: be16_def)

lemma be16_be16_bytes [simp]: "be16 (be16_bytes w) = Inr w"
proof -
  have "(ucast (ucast w :: u8) OR push_bit 8 (ucast (ucast (drop_bit 8 w) :: u8)) :: u16) = w"
    by (rule bit_word_eqI) (auto simp: bit_simps)
  then show ?thesis by (simp add: be16_bytes_def)
qed

lemma length_be16_bytes [simp]: "length (be16_bytes w) = 2"
  by (simp add: be16_bytes_def)

lemma be16_ok: "2 \<le> length b \<Longrightarrow> \<exists>w. be16 b = Inr w"
  by (cases b; cases "tl b") (auto simp: be16_def)

subsection \<open>Operations\<close>

text \<open>
  The label loop of \<open>parseDomainName\<close>. \<^const>\<open>None\<close> is the early return \<open>("", -1)\<close>; otherwise
  the labels and the offset at which the loop ends.
\<close>

function label_loop :: "u8 list \<Rightarrow> nat \<Rightarrow> string list \<Rightarrow> (string list \<times> nat) option go" where
  "label_loop payload offset labels =
     (if offset < length payload then
        gbind (gindex payload offset) (\<lambda>length_byte.
         let offset1 = offset + 1 in
         if length_byte AND 0xC0 = 0xC0 then
           (if offset1 \<ge> length payload then Inr None else Inr (Some (labels, offset1)))
         else if length_byte = 0 then Inr (Some (labels, offset1))
         else if offset1 + unat length_byte > length payload then Inr None
         else gbind (gslice payload (int offset1) (int (offset1 + unat length_byte))) (\<lambda>label.
                label_loop payload (offset1 + unat length_byte) (labels @ [bytes_string label])))
      else Inr (Some (labels, offset)))"
  by pat_completeness auto
termination
  by (relation "measure (\<lambda>(payload, offset, labels). length payload - offset)") auto

declare label_loop.simps [simp del]

text \<open>The joining loop: \<open>i\<close> is the index of the next label.\<close>

fun join_loop :: "nat \<Rightarrow> string \<Rightarrow> string list \<Rightarrow> string" where
  "join_loop i domain [] = domain"
| "join_loop i domain (label # labels) =
     join_loop (i + 1) ((if i > 0 then domain @ ''.'' else domain) @ label) labels"

definition parseDomainName :: "u8 list \<Rightarrow> nat \<Rightarrow> (string \<times> int) go" where
  "parseDomainName payload offset =
     gbind (label_loop payload offset []) (\<lambda>r. case r of
         None \<Rightarrow> Inr ('''', - 1)
       | Some (labels, offset') \<Rightarrow> Inr (join_loop 0 '''' labels, int offset'))"

text \<open>The question loop of \<open>ParseDNS\<close>: \<open>n\<close> questions are left.\<close>

fun question_loop :: "u8 list \<Rightarrow> nat \<Rightarrow> nat \<Rightarrow> DNSQuestion list \<Rightarrow> DNSQuestion list option go" where
  "question_loop payload 0 offset questions = Inr (Some questions)"
| "question_loop payload (Suc n) offset questions =
     gbind (parseDomainName payload offset) (\<lambda>(name, newOffset).
       if newOffset = - 1 \<or> newOffset + 4 > int (length payload) then Inr None
       else
         gbind (gbind (gslice payload newOffset (newOffset + 2)) be16) (\<lambda>qtype.
         gbind (gbind (gslice payload (newOffset + 2) (newOffset + 4)) be16) (\<lambda>qclass.
           question_loop payload n (nat (newOffset + 4))
             (questions @ [\<lparr>q_Name = name, q_Type = qtype, q_Class = qclass\<rparr>]))))"

definition ParseDNS :: "u8 list \<Rightarrow> DNSResponse option go" where
  "ParseDNS payload =
     (if length payload < 12 then Inr None
      else
        gbind (gbind (gslice payload 2 4) be16) (\<lambda>flags.
        let isResponse = (flags AND 0x8000 \<noteq> 0) in
        gbind (gbind (gslice payload 4 6) be16) (\<lambda>qdcount.
        if qdcount = 0 then Inr None
        else
          let rcode = ucast (flags AND 0x0F) in
          gbind (question_loop payload (unat qdcount) 12 []) (\<lambda>r. case r of
              None \<Rightarrow> Inr None
            | Some questions \<Rightarrow>
                Inr (Some \<lparr>resp_Questions = questions, resp_ResponseCode = rcode,
                           resp_IsResponse = isResponse\<rparr>)))))"

definition GetQueryType :: "u16 \<Rightarrow> string" where
  "GetQueryType qtype =
     (if qtype = 1 then ''A''
      else if qtype = 2 then ''NS''
      else if qtype = 5 then ''CNAME''
      else if qtype = 6 then ''SOA''
      else if qtype = 12 then ''PTR''
      else if qtype = 15 then ''MX''
      else if qtype = 16 then ''TXT''
      else if qtype = 28 then ''AAAA''
      else if qtype = 33 then ''SRV''
      else if qtype = 255 then ''ANY''
      else ''?'')"

definition GetResponseCode :: "u8 \<Rightarrow> string" where
  "GetResponseCode rcode =
     (if rcode = 0 then ''NoError''
      else if rcode = 1 then ''FormErr''
      else if rcode = 2 then ''ServFail''
      else if rcode = 3 then ''NXDomain''
      else if rcode = 4 then ''NotImpl''
      else if rcode = 5 then ''Refused''
      else ''?'')"

subsection \<open>Lemmas: the parser stays inside the payload\<close>

lemma label_loop_ok:
  "offset \<le> length payload \<Longrightarrow> \<exists>r. label_loop payload offset labels = Inr r \<and>
     (\<forall>ls off. r = Some (ls, off) \<longrightarrow> offset \<le> off \<and> off \<le> length payload)"
proof (induction payload offset labels rule: label_loop.induct)
  case (1 payload offset labels)
  let ?len = "unat (payload ! offset)"
  show ?case
  proof (cases "offset < length payload \<and> payload ! offset AND 0xC0 \<noteq> 0xC0 \<and>
                payload ! offset \<noteq> 0 \<and> offset + 1 + ?len \<le> length payload")
    case True
    let ?l = "take ?len (drop (offset + 1) payload)"
    from True have slice: "gslice payload (int (offset + 1)) (int (offset + 1 + ?len)) = Inr ?l"
      by (subst gslice_ok) simp_all
    obtain r where r: "label_loop payload (offset + 1 + ?len) (labels @ [bytes_string ?l]) = Inr r"
      "\<forall>ls off. r = Some (ls, off) \<longrightarrow> offset + 1 + ?len \<le> off \<and> off \<le> length payload"
      using "1.IH" [OF _ refl, of "payload ! offset" ?l] True by fastforce
    then show ?thesis
      using True slice by (subst label_loop.simps) (auto simp: Let_def)
  next
    case False
    then show ?thesis
      using "1.prems" by (subst label_loop.simps) (auto simp: Let_def)
  qed
qed

lemma parseDomainName_ok:
  assumes "offset \<le> length payload"
  shows "\<exists>name off. parseDomainName payload offset = Inr (name, off) \<and>
           (off = - 1 \<or> int offset \<le> off \<and> off \<le> int (length payload))"
  using label_loop_ok [OF assms, of "[]"]
  by (auto simp: parseDomainName_def split: option.split)

lemma slice_be16_ok:
  assumes "0 \<le> i" and "i + 2 \<le> int (length payload)"
  shows "\<exists>w. gbind (gslice payload i (i + 2)) be16 = Inr w"
  using assms be16_ok [of "take 2 (drop (nat i) payload)"]
  by (simp add: gslice_def nat_add_distrib)

lemma question_loop_ok:
  "offset \<le> length payload \<Longrightarrow> \<exists>r. question_loop payload n offset qs = Inr r \<and>
     (\<forall>qs'. r = Some qs' \<longrightarrow> length qs' = length qs + n)"
proof (induction n arbitrary: offset qs)
  case (Suc n)
  from parseDomainName_ok [OF Suc.prems] obtain name off where
    dom: "parseDomainName payload offset = Inr (name, off)"
    and off: "off = - 1 \<or> int offset \<le> off \<and> off \<le> int (length payload)" by blast
  show ?case
  proof (cases "off = - 1 \<or> off + 4 > int (length payload)")
    case False
    with off slice_be16_ok [of off payload] slice_be16_ok [of "off + 2" payload]
    obtain t c where tc: "gbind (gslice payload off (off + 2)) be16 = Inr t"
      "gbind (gslice payload (off + 2) (off + 4)) be16 = Inr c"
      by (auto simp: add.assoc)
    have "nat (off + 4) \<le> length payload" using False by auto
    from Suc.IH [OF this, of "qs @ [\<lparr>q_Name = name, q_Type = t, q_Class = c\<rparr>]"]
    show ?thesis using dom tc False by auto
  qed (use dom in auto)
qed simp

text \<open>Parsing never panics, and a parsed message has one question for every one announced.\<close>

lemma low_nibble_bound: "(ucast ((flags :: u16) AND 0x0F) :: u8) < 16"
proof -
  have "flags AND 0x0F \<le> 0x0F" by (rule word_and_le1)
  then have "unat (flags AND 0x0F) \<le> 15" by (simp add: word_le_nat_alt)
  then show ?thesis by (simp add: word_less_nat_alt unsigned_ucast_eq take_bit_nat_eq_self)
qed

lemma ParseDNS_ok:
  "\<exists>r. ParseDNS payload = Inr r \<and>
     (\<forall>resp. r = Some resp \<longrightarrow> 12 \<le> length payload \<and>
        (\<exists>qdcount. gbind (gslice payload 4 6) be16 = Inr qdcount \<and> 0 < qdcount \<and>
           length (resp_Questions resp) = unat qdcount) \<and>
        resp_ResponseCode resp < 16)"
proof (cases "length payload < 12")
  case False
  then obtain flags qd where
    h: "gbind (gslice payload 2 4) be16 = Inr flags" "gbind (gslice payload 4 6) be16 = Inr qd"
    using slice_be16_ok [of 2 payload] slice_be16_ok [of 4 payload] by auto
  from question_loop_ok [of 12 payload "unat qd" "[]"] False obtain r where
    "question_loop payload (unat qd) 12 [] = Inr r"
    "\<forall>qs'. r = Some qs' \<longrightarrow> length qs' = unat qd" by auto
  then show ?thesis
    using h low_nibble_bound [of flags] False
    by (cases "qd = 0") (auto simp: ParseDNS_def Let_def word_gt_0 split: option.split)
qed (simp add: ParseDNS_def)

subsection \<open>Reference encoder\<close>

text \<open>
  An uncompressed message as RFC 1035 writes it: a name is its labels, each with a length byte,
  and a zero byte. A label is well formed when it has between 1 and 63 bytes.
\<close>

record dns_question =
  dns_labels :: "string list"
  dns_type :: u16
  dns_class :: u16

definition label_ok :: "string \<Rightarrow> bool" where
  "label_ok l \<longleftrightarrow> 0 < length l \<and> length l \<le> 63"

definition encode_name :: "string list \<Rightarrow> u8 list" where
  "encode_name ls = concat (map (\<lambda>l. word_of_nat (length l) # string_bytes l) ls) @ [0]"

definition encode_question :: "dns_question \<Rightarrow> u8 list" where
  "encode_question q = encode_name (dns_labels q) @ be16_bytes (dns_type q) @ be16_bytes (dns_class q)"

text \<open>The header has an identifier, the flags, the question count and three more counts.\<close>

definition encode_header :: "u16 \<Rightarrow> u16 \<Rightarrow> u16 \<Rightarrow> u16 \<Rightarrow> u16 \<Rightarrow> u16 \<Rightarrow> u8 list" where
  "encode_header ident flags qdcount ancount nscount arcount =
     be16_bytes ident @ be16_bytes flags @ be16_bytes qdcount @
     be16_bytes ancount @ be16_bytes nscount @ be16_bytes arcount"

fun dots :: "string list \<Rightarrow> string" where
  "dots [] = []"
| "dots [l] = l"
| "dots (l # ls) = l @ ''.'' @ dots ls"

definition question_of :: "dns_question \<Rightarrow> DNSQuestion" where
  "question_of q = \<lparr>q_Name = dots (dns_labels q), q_Type = dns_type q, q_Class = dns_class q\<rparr>"

lemma join_loop_later: "0 < i \<Longrightarrow> join_loop i d ls = d @ concat (map (\<lambda>l. ''.'' @ l) ls)"
  by (induction i d ls rule: join_loop.induct) simp_all

lemma join_loop_dots: "join_loop 0 '''' ls = dots ls"
proof (cases ls)
  case (Cons l ms)
  have "l @ concat (map (\<lambda>l. ''.'' @ l) ms) = dots (l # ms)"
  proof (induction ms arbitrary: l)
    case (Cons m ms)
    show ?case using Cons.IH [of m] by (simp only: list.map concat.simps dots.simps append_assoc)
  qed simp
  then show ?thesis by (simp add: Cons join_loop_later)
qed simp

lemma label_length_byte:
  assumes "label_ok l"
  shows "(word_of_nat (length l) :: u8) AND 0xC0 \<noteq> 0xC0"
    and "(word_of_nat (length l) :: u8) \<noteq> 0"
    and "unat (word_of_nat (length l) :: u8) = length l"
proof -
  from assms have n: "0 < length l" "length l < 64" by (simp_all add: label_ok_def)
  then show u: "unat (word_of_nat (length l) :: u8) = length l"
    by (simp add: unat_of_nat)
  show "(word_of_nat (length l) :: u8) \<noteq> 0"
    using u n by (metis unat_0 less_irrefl)
  have "\<not> bit (word_of_nat (length l) :: u8) 7"
    using n by (simp add: bit_simps) (simp add: bit_iff_odd)
  moreover have "bit (0xC0 :: u8) 7" by (simp add: bit_numeral_rec)
  ultimately show "(word_of_nat (length l) :: u8) AND 0xC0 \<noteq> 0xC0"
    by (metis bit_and_iff)
qed

lemma label_loop_label:
  assumes "label_ok l"
  shows "label_loop (pre @ (word_of_nat (length l) # string_bytes l) @ post) (length pre) acc =
         label_loop (pre @ (word_of_nat (length l) # string_bytes l) @ post)
           (length (pre @ (word_of_nat (length l) # string_bytes l))) (acc @ [l])"
proof -
  have "gslice (pre @ word_of_nat (length l) # string_bytes l @ post)
          (1 + int (length pre)) (1 + int (length pre) + int (length l)) = Inr (string_bytes l)"
    by (simp add: gslice_def nat_add_distrib)
  then show ?thesis
    using label_length_byte [OF assms]
    by (subst label_loop.simps) (simp add: nth_append ac_simps)
qed

lemma label_loop_encode_name:
  assumes "list_all label_ok ls"
  shows "label_loop (pre @ encode_name ls @ post) (length pre) acc =
         Inr (Some (acc @ ls, length pre + length (encode_name ls)))"
  using assms
proof (induction ls arbitrary: pre acc)
  case Nil
  show ?case
    by (subst label_loop.simps) (simp add: encode_name_def nth_append)
next
  case (Cons l ls)
  let ?e = "word_of_nat (length l) # string_bytes l"
  from Cons.prems have ok: "label_ok l" "list_all label_ok ls" by simp_all
  have "label_loop (pre @ encode_name (l # ls) @ post) (length pre) acc =
        label_loop ((pre @ ?e) @ encode_name ls @ post) (length (pre @ ?e)) (acc @ [l])"
    using label_loop_label [OF ok(1), of pre "encode_name ls @ post" acc]
    by (simp add: encode_name_def)
  also have "\<dots> = Inr (Some ((acc @ [l]) @ ls, length (pre @ ?e) + length (encode_name ls)))"
    by (rule Cons.IH [OF ok(2)])
  finally show ?case by (simp add: encode_name_def)
qed

lemma parseDomainName_encode_name:
  "list_all label_ok ls \<Longrightarrow> parseDomainName (pre @ encode_name ls @ post) (length pre) =
     Inr (dots ls, int (length pre + length (encode_name ls)))"
  by (simp add: parseDomainName_def label_loop_encode_name join_loop_dots)

lemma slice_be16_at:
  "int (length pre) = i \<Longrightarrow>
     gbind (gslice (pre @ be16_bytes w @ post) i (i + 2)) be16 = Inr w"
  by (auto simp: gslice_def nat_add_distrib)

lemma question_loop_encode:
  assumes "\<forall>q \<in> set qs. list_all label_ok (dns_labels q)"
  shows "question_loop (pre @ concat (map encode_question qs) @ post) (length qs) (length pre) acc =
         Inr (Some (acc @ map question_of qs))"
  using assms
proof (induction qs arbitrary: pre acc)
  case (Cons q qs)
  let ?n = "encode_name (dns_labels q)"
  let ?rest = "concat (map encode_question qs) @ post"
  let ?p = "pre @ ?n @ be16_bytes (dns_type q) @ be16_bytes (dns_class q) @ ?rest"
  let ?off = "int (length pre + length ?n)"
  have p: "pre @ concat (map encode_question (q # qs)) @ post = ?p"
    by (simp add: encode_question_def)
  have dom: "parseDomainName ?p (length pre) = Inr (dots (dns_labels q), ?off)"
    using Cons.prems by (intro parseDomainName_encode_name) simp
  have t: "gbind (gslice ?p ?off (?off + 2)) be16 = Inr (dns_type q)"
    using slice_be16_at [of "pre @ ?n" ?off "dns_type q" "be16_bytes (dns_class q) @ ?rest"] by simp
  have c: "gbind (gslice ?p (?off + 2) (?off + 4)) be16 = Inr (dns_class q)"
    using slice_be16_at [of "pre @ ?n @ be16_bytes (dns_type q)" "?off + 2" "dns_class q" ?rest]
    by (simp add: add.assoc)
  have IH: "question_loop ?p (length qs) (nat (?off + 4)) (acc @ [question_of q]) =
      Inr (Some ((acc @ [question_of q]) @ map question_of qs))"
    using Cons.IH [of "pre @ encode_question q" "acc @ [question_of q]"] Cons.prems
    by (simp add: encode_question_def [of q] nat_add_distrib ac_simps)
  show ?case
    unfolding p using dom t c IH by (simp add: question_of_def)
qed simp

subsection \<open>Properties\<close>

text \<open>
  C27: Parsing is safe and total: on every payload \<open>ParseDNS\<close> returns without a panic (no index
  or slice of the source leaves the payload). When it returns a message, the payload had a full
  header, the message has exactly as many questions as the header announces, at least one, and
  the response code is a four-bit value.
\<close>

theorem ParseDNS_safe:
  "\<exists>r. ParseDNS payload = Inr r \<and>
     (case r of None \<Rightarrow> True
      | Some resp \<Rightarrow> 12 \<le> length payload \<and> resp_ResponseCode resp < 16 \<and>
          resp_Questions resp \<noteq> [] \<and>
          be16 (take 2 (drop 4 payload)) = Inr (word_of_nat (length (resp_Questions resp))))"
proof -
  from ParseDNS_ok [of payload] obtain r where r: "ParseDNS payload = Inr r" and
    ok: "\<And>resp. r = Some resp \<Longrightarrow> 12 \<le> length payload \<and>
        (\<exists>qd. gbind (gslice payload 4 6) be16 = Inr qd \<and> 0 < qd \<and>
           length (resp_Questions resp) = unat qd) \<and> resp_ResponseCode resp < 16"
    by blast
  show ?thesis
  proof (cases r)
    case (Some resp)
    from ok [OF Some] obtain qd where
      qd: "gbind (gslice payload 4 6) be16 = Inr qd" "0 < qd" "length (resp_Questions resp) = unat qd"
      and len: "12 \<le> length payload" "resp_ResponseCode resp < 16" by blast
    have "be16 (take 2 (drop 4 payload)) = Inr qd"
      using qd(1) len(1) by (simp add: gslice_def)
    moreover have "resp_Questions resp \<noteq> []"
      using qd(2,3) by (auto simp: word_gt_0 unat_eq_0)
    ultimately show ?thesis using r Some len qd(3) by simp
  qed (simp add: r)
qed

text \<open>
  C26: Round trip with RFC 1035: for any header with a non-zero question count, any list of that
  many questions whose labels have 1 to 63 bytes (at least one and at most 65535 questions), and
  any bytes after them, \<open>ParseDNS\<close> of the encoded message returns exactly those questions, their
  names joined by dots, with the header's response bit and response code.
\<close>

theorem ParseDNS_roundtrip:
  assumes qs: "\<forall>q \<in> set qs. list_all label_ok (dns_labels q)"
    and n: "length qs = unat qdcount" "qdcount \<noteq> 0"
  shows "ParseDNS (encode_header ident flags qdcount an ns ar @ concat (map encode_question qs) @ rest) =
    Inr (Some \<lparr>resp_Questions = map question_of qs,
               resp_ResponseCode = ucast (flags AND 0x0F),
               resp_IsResponse = (flags AND 0x8000 \<noteq> 0)\<rparr>)"
proof -
  let ?h = "encode_header ident flags qdcount an ns ar"
  let ?p = "?h @ concat (map encode_question qs) @ rest"
  have len: "length ?h = 12" by (simp add: encode_header_def)
  have f: "gbind (gslice ?p 2 4) be16 = Inr flags"
    using slice_be16_at [of "be16_bytes ident" 2 flags] by (simp add: encode_header_def)
  have q: "gbind (gslice ?p 4 6) be16 = Inr qdcount"
    using slice_be16_at [of "be16_bytes ident @ be16_bytes flags" 4 qdcount]
    by (simp add: encode_header_def)
  have "question_loop ?p (unat qdcount) 12 [] = Inr (Some (map question_of qs))"
    using question_loop_encode [OF qs, of ?h rest "[]"] n(1) len by simp
  then show ?thesis
    using f q n(2) len by (simp add: ParseDNS_def Let_def)
qed

theorem ParseDNS_roundtrip_witness:
  "ParseDNS (encode_header 7 0x8183 1 0 0 0 @
       concat (map encode_question [\<lparr>dns_labels = [''example'', ''com''], dns_type = 1, dns_class = 1\<rparr>]) @ []) =
     Inr (Some \<lparr>resp_Questions = [\<lparr>q_Name = ''example.com'', q_Type = 1, q_Class = 1\<rparr>],
                resp_ResponseCode = 3, resp_IsResponse = True\<rparr>)"
  using ParseDNS_roundtrip [of "[\<lparr>dns_labels = [''example'', ''com''], dns_type = 1, dns_class = 1\<rparr>]"
      1 7 "0x8183" 0 0 0 "[]"]
  by (simp add: label_ok_def question_of_def)

text \<open>
  C28: A compression pointer is not skipped whole. Where a name is a two-byte pointer, the
  parser returns the offset of the pointer's second byte instead of the offset after it, so a
  question with a compressed name gets a type made of the pointer's low byte and the high byte
  of the real type, and a class made of the low byte of the type and the high byte of the class.
\<close>

theorem compression_pointer_misparsed:
  assumes "hi AND 0xC0 = 0xC0"
  shows "ParseDNS (encode_header ident flags 1 an ns ar @ [hi, lo] @ [t1, t2, c1, c2]) =
    Inr (Some \<lparr>resp_Questions = [\<lparr>q_Name = '''', q_Type = ucast t1 OR push_bit 8 (ucast lo),
                                  q_Class = ucast c1 OR push_bit 8 (ucast t2)\<rparr>],
               resp_ResponseCode = ucast (flags AND 0x0F),
               resp_IsResponse = (flags AND 0x8000 \<noteq> 0)\<rparr>)
    \<and> parseDomainName (encode_header ident flags 1 an ns ar @ [hi, lo] @ [t1, t2, c1, c2]) 12 = Inr ('''', 13)"
proof -
  let ?h = "encode_header ident flags 1 an ns ar"
  let ?p = "?h @ [hi, lo] @ [t1, t2, c1, c2]"
  have len: "length ?h = 12" by (simp add: encode_header_def)
  have f: "gbind (gslice ?p 2 4) be16 = Inr flags"
    using slice_be16_at [of "be16_bytes ident" 2 flags] by (simp add: encode_header_def)
  have q: "gbind (gslice ?p 4 6) be16 = Inr 1"
    using slice_be16_at [of "be16_bytes ident @ be16_bytes flags" 4 1] by (simp add: encode_header_def)
  have dom: "parseDomainName ?p 12 = Inr ('''', 13)"
    unfolding parseDomainName_def
    by (subst label_loop.simps) (simp add: nth_append len assms)
  have t: "gbind (gslice ?p 13 15) be16 = Inr (ucast t1 OR push_bit 8 (ucast lo))"
    "gbind (gslice ?p 15 17) be16 = Inr (ucast c1 OR push_bit 8 (ucast t2))"
    by (simp_all add: gslice_def len)
  have "question_loop ?p (Suc 0) 12 [] = Inr (Some [\<lparr>q_Name = '''', q_Type = ucast t1 OR push_bit 8 (ucast lo),
                                  q_Class = ucast c1 OR push_bit 8 (ucast t2)\<rparr>])"
    using dom t by (simp add: len)
  with f q dom show ?thesis
    by (simp add: ParseDNS_def Let_def len)
qed

theorem compression_pointer_misparsed_witness:
  "parseDomainName (encode_header 7 0x0100 1 0 0 0 @ [0xC0, 0x0C] @ [0, 1, 0, 1]) 12 = Inr ('''', 13)"
  using compression_pointer_misparsed [of "0xC0" 7 "0x0100" 0 0 0 "0x0C" 0 1 0 1] by simp

end
