(* ===== verification/StatusLog.thy ===== *)
theory StatusLog
  imports RingBuffer
begin

text \<open>
  The status log of \<^verbatim>\<open>internal/monitor/monitor.go\<close>: recent messages for the dashboard. \<open>Infof\<close>,
  \<open>Warnf\<close> and \<open>Errorf\<close> are the plain forms applied to the text their caller formats, so each
  level has one definition. Every operation runs under the log's mutex; the clock reading of
  \<open>Add\<close> is an argument.
\<close>

subsection \<open>State and operations\<close>

record StatusMessage =
  msg_Time :: time
  msg_Level :: string
  msg_Message :: string

record StatusLog =
  sl_messages :: "StatusMessage list"
  sl_maxSize :: int

definition NewStatusLog :: "int \<Rightarrow> StatusLog go" where
  "NewStatusLog maxSize =
     (if maxSize < 0 then Inl MakeNegative else Inr \<lparr>sl_messages = [], sl_maxSize = maxSize\<rparr>)"

definition sl_Add :: "StatusLog \<Rightarrow> time \<Rightarrow> string \<Rightarrow> string \<Rightarrow> StatusLog" where
  "sl_Add sl now level msg =
     (let messages = sl_messages sl @ [\<lparr>msg_Time = now, msg_Level = level, msg_Message = msg\<rparr>]
      in sl\<lparr>sl_messages := (if int (length messages) > sl_maxSize sl then tl messages else messages)\<rparr>)"

definition sl_Info :: "StatusLog \<Rightarrow> time \<Rightarrow> string \<Rightarrow> StatusLog" where
  "sl_Info sl now msg = sl_Add sl now ''info'' msg"

definition sl_Warn :: "StatusLog \<Rightarrow> time \<Rightarrow> string \<Rightarrow> StatusLog" where
  "sl_Warn sl now msg = sl_Add sl now ''warn'' msg"

definition sl_Error :: "StatusLog \<Rightarrow> time \<Rightarrow> string \<Rightarrow> StatusLog" where
  "sl_Error sl now msg = sl_Add sl now ''error'' msg"

definition GetRecent :: "StatusLog \<Rightarrow> int \<Rightarrow> StatusMessage list go" where
  "GetRecent sl n =
     (let len = int (length (sl_messages sl)); n' = (if n > len then len else n)
      in if n' < 0 then Inl MakeNegative
         else Inr (drop (nat (len - n')) (sl_messages sl)))"

subsection \<open>A bounded log\<close>

definition status_inv :: "StatusLog \<Rightarrow> bool" where
  "status_inv sl \<longleftrightarrow> int (length (sl_messages sl)) \<le> sl_maxSize sl"

definition status_entry :: "time \<times> string \<times> string \<Rightarrow> StatusMessage" where
  "status_entry = (\<lambda>(now, level, msg). \<lparr>msg_Time = now, msg_Level = level, msg_Message = msg\<rparr>)"

text \<open>\<open>Add\<close> never panics; as an operation of the interface it returns \<open>Inr\<close>.\<close>

definition status_add :: "StatusLog \<Rightarrow> time \<times> string \<times> string \<Rightarrow> StatusLog go" where
  "status_add sl = (\<lambda>(now, level, msg). Inr (sl_Add sl now level msg))"

lemma sl_Add_messages:
  assumes "status_inv sl"
  shows "sl_messages (sl_Add sl now level msg) =
           lastn (nat (sl_maxSize sl)) (sl_messages sl @ [status_entry (now, level, msg)])"
    and "sl_maxSize (sl_Add sl now level msg) = sl_maxSize sl"
    and "status_inv (sl_Add sl now level msg)"
proof -
  show "sl_messages (sl_Add sl now level msg) =
      lastn (nat (sl_maxSize sl)) (sl_messages sl @ [status_entry (now, level, msg)])"
  proof (cases "int (length (sl_messages sl)) < sl_maxSize sl")
    case True
    then show ?thesis by (simp add: sl_Add_def status_entry_def)
  next
    case False
    then have "length (sl_messages sl) = nat (sl_maxSize sl)"
      using assms by (simp add: status_inv_def)
    then show ?thesis
      using False by (simp add: sl_Add_def status_entry_def lastn_def drop_Suc del: drop_append)
  qed
  show "sl_maxSize (sl_Add sl now level msg) = sl_maxSize sl"
    by (simp add: sl_Add_def Let_def)
  show "status_inv (sl_Add sl now level msg)"
    using assms by (auto simp: sl_Add_def status_inv_def Let_def)
qed

interpretation status: bounded_log status_inv status_add sl_messages status_entry "\<lambda>sl. nat (sl_maxSize sl)"
proof unfold_locales
  fix sl and x :: "time \<times> string \<times> string"
  assume inv: "status_inv sl"
  then show "length (sl_messages sl) \<le> nat (sl_maxSize sl)"
    by (simp add: status_inv_def)
  obtain now level msg where x: "x = (now, level, msg)" by (cases x) auto
  show "\<exists>s'. status_add sl x = Inr s' \<and> status_inv s' \<and> nat (sl_maxSize s') = nat (sl_maxSize sl) \<and>
      sl_messages s' = lastn (nat (sl_maxSize sl)) (sl_messages sl @ [status_entry x])"
    using sl_Add_messages [OF inv] by (simp add: status_add_def x)
qed

lemma status_inv_new: "NewStatusLog n = Inr sl \<Longrightarrow> status_inv sl \<and> sl_messages sl = [] \<and> sl_maxSize sl = n"
  by (auto simp: NewStatusLog_def status_inv_def split: if_splits)

lemma GetRecent_lastn: "0 \<le> n \<Longrightarrow> GetRecent sl n = Inr (lastn (nat n) (sl_messages sl))"
  by (auto simp: GetRecent_def lastn_def Let_def nat_diff_distrib)

subsection \<open>Properties\<close>

text \<open>
  The status log shows the newest messages. After any sequence of messages added to a new
  log of any non-negative size, \<open>GetRecent n\<close> for a non-negative \<open>n\<close> returns the last \<open>n\<close> of
  the last \<open>maxSize\<close> messages, in order; a negative size or a negative count panics.
\<close>

theorem status_log_keeps_newest:
  assumes "0 \<le> maxSize" and "0 \<le> n"
  shows "(\<exists>sl sl'. NewStatusLog maxSize = Inr sl \<and> gfold status_add sl msgs = Inr sl' \<and>
            GetRecent sl' n = Inr (lastn (nat n) (lastn (nat maxSize) (map status_entry msgs))))
    \<and> GetRecent any (- 1) = Inl MakeNegative \<and> NewStatusLog (- 1) = Inl MakeNegative"
proof -
  obtain sl where new: "NewStatusLog maxSize = Inr sl"
    using assms by (simp add: NewStatusLog_def)
  from status.add_all [of sl msgs] status_inv_new [OF new] GetRecent_lastn [OF assms(2)] new
  show ?thesis by (auto simp: GetRecent_def NewStatusLog_def)
qed

theorem status_log_keeps_newest_witness:
  "\<exists>sl sl'. NewStatusLog 2 = Inr sl \<and>
     gfold status_add sl [(1, ''info'', ''a''), (2, ''warn'', ''b''), (3, ''info'', ''c'')] = Inr sl' \<and>
     GetRecent sl' 5 = Inr (lastn (nat 5) (lastn (nat 2)
       (map status_entry [(1, ''info'', ''a''), (2, ''warn'', ''b''), (3, ''info'', ''c'')])))"
  using status_log_keeps_newest [of 2 5 "[(1, ''info'', ''a''), (2, ''warn'', ''b''), (3, ''info'', ''c'')]" undefined]
  by simp

end
