(* ===== verification/Reader.thy ===== *)
theory Reader
  imports Packet StatusLog
begin

text \<open>
  The event reader of \<^verbatim>\<open>internal/monitor/monitor.go\<close>: start-up and shut-down, the decoder of
  ring-buffer samples, the read loop and the interface watcher.

  The kernel, the \<open>ebpf\<close> library and the network configuration are an argument (\<open>os\<close>): for each
  call what it returned. Opening and closing of their handles is recorded as a list of
  effects. A loop body is a function from the reader's state and what the outside world gave it.
\<close>

subsection \<open>The outside world\<close>

record iface =
  if_name :: string
  if_index :: int
  if_flags :: u64

definition FlagUp :: u64 where "FlagUp = 1"
definition FlagLoopback :: u64 where "FlagLoopback = 4"

type_synonym ext_error = string

record os =
  os_RemoveMemlock :: "ext_error option"
  os_InterfaceByName :: "string \<Rightarrow> ext_error + iface"
  os_Interfaces :: "ext_error + iface list"
  os_loadBpfObjects :: "ext_error option"
  os_AttachXDP :: "int \<Rightarrow> ext_error option"
  os_NewRingReader :: "ext_error option"
  os_now :: time

datatype handle = Objs | XdpLink | RingReader

datatype effect = Open handle | Close handle

text \<open>The errors \<open>NewEventReader\<close> returns, each with the cause it wraps.\<close>

datatype reader_error =
    RemoveMemlockFailed ext_error
  | InterfaceNotFound string ext_error
  | AutoDetectFailed reader_error
  | ListInterfacesFailed ext_error
  | NoSuitableInterface
  | LoadObjectsFailed ext_error
  | AttachXDPFailed string ext_error
  | OpenRingBufferFailed ext_error

subsection \<open>State\<close>

record EventReader =
  er_objs :: bool
  er_xdpLink :: bool
  er_ringReader :: bool
  er_eventsChan :: "PacketEvent list"
  er_stopClosed :: bool
  er_iface :: iface
  er_verbose :: bool
  er_droppedInUserspace :: u64
  er_Status :: StatusLog

text \<open>The capacity of the events channel.\<close>

definition eventsChanCap :: nat where
  "eventsChanCap = 10000"

subsection \<open>Start-up and shut-down\<close>

definition preferred :: "string list" where
  "preferred = [''eth0'', ''eno1'', ''ens3'', ''enp0s3'', ''wlan0'', ''wlo1'']"

fun first_preferred :: "(string \<Rightarrow> ext_error + iface) \<Rightarrow> string list \<Rightarrow> iface option" where
  "first_preferred byName [] = None"
| "first_preferred byName (name # names) =
     (case byName name of
        Inr i \<Rightarrow> if if_flags i AND FlagUp \<noteq> 0 then Some i else first_preferred byName names
      | Inl err \<Rightarrow> first_preferred byName names)"

fun first_usable :: "iface list \<Rightarrow> iface option" where
  "first_usable [] = None"
| "first_usable (i # is) =
     (if if_flags i AND FlagUp \<noteq> 0 \<and> if_flags i AND FlagLoopback = 0 then Some i
      else first_usable is)"

definition findPrimaryInterface :: "os \<Rightarrow> reader_error + iface" where
  "findPrimaryInterface os =
     (case first_preferred (os_InterfaceByName os) preferred of
        Some i \<Rightarrow> Inr i
      | None \<Rightarrow>
          (case os_Interfaces os of
             Inl err \<Rightarrow> Inl (ListInterfacesFailed err)
           | Inr is \<Rightarrow> (case first_usable is of
                Some i \<Rightarrow> Inr i | None \<Rightarrow> Inl NoSuitableInterface)))"

text \<open>The three bytes of an em dash in UTF-8.\<close>

definition em_dash :: string where
  "em_dash = [CHR 0xE2, CHR 0x80, CHR 0x94]"

definition targetInterface :: "os \<Rightarrow> string \<Rightarrow> reader_error + iface" where
  "targetInterface os ifaceName =
     (if ifaceName \<noteq> '''' then
        (case os_InterfaceByName os ifaceName of
           Inl err \<Rightarrow> Inl (InterfaceNotFound ifaceName err) | Inr i \<Rightarrow> Inr i)
      else
        (case findPrimaryInterface os of
           Inl err \<Rightarrow> Inl (AutoDetectFailed err) | Inr i \<Rightarrow> Inr i))"

definition NewEventReader ::
    "os \<Rightarrow> string \<Rightarrow> bool \<Rightarrow> (reader_error + EventReader) \<times> effect list" where
  "NewEventReader os ifaceName verbose =
     (let now = os_now os; status = \<lparr>sl_messages = [], sl_maxSize = 100\<rparr> in
      case os_RemoveMemlock os of Some err \<Rightarrow> (Inl (RemoveMemlockFailed err), []) | None \<Rightarrow>
      case targetInterface os ifaceName of Inl err \<Rightarrow> (Inl err, []) | Inr ifc \<Rightarrow>
      let status = sl_Info status now (''Target interface: '' @ if_name ifc @ '' (index '' @ dec_int (if_index ifc) @ '')'') in
      case os_loadBpfObjects os of Some err \<Rightarrow> (Inl (LoadObjectsFailed err), []) | None \<Rightarrow>
      let status = sl_Info status now ''eBPF objects loaded'' in
      case os_AttachXDP os (if_index ifc) of
        Some err \<Rightarrow> (Inl (AttachXDPFailed (if_name ifc) err), [Open Objs, Close Objs])
      | None \<Rightarrow>
      let status = sl_Info status now (''XDP attached to '' @ if_name ifc) in
      case os_NewRingReader os of
        Some err \<Rightarrow> (Inl (OpenRingBufferFailed err), [Open Objs, Open XdpLink, Close XdpLink, Close Objs])
      | None \<Rightarrow>
      let status = sl_Info status now (''Ring buffer reader opened '' @ em_dash @ '' capturing packets'') in
      (Inr \<lparr>er_objs = True, er_xdpLink = True, er_ringReader = True, er_eventsChan = [],
            er_stopClosed = False, er_iface = ifc, er_verbose = verbose,
            er_droppedInUserspace = 0, er_Status = status\<rparr>,
       [Open Objs, Open XdpLink, Open RingReader]))"

definition CloseReader :: "EventReader \<Rightarrow> (EventReader \<times> effect list) go" where
  "CloseReader er =
     (if er_stopClosed er then Inl CloseOfClosedChannel
      else Inr (er\<lparr>er_stopClosed := True\<rparr>,
        (if er_ringReader er then [Close RingReader] else []) @
        (if er_xdpLink er then [Close XdpLink] else []) @
        (if er_objs er then [Close Objs] else [])))"

text \<open>\<open>lookup\<close> is what reading the kernel's counter map returned, \<^const>\<open>None\<close> an error.\<close>

definition KernelStats :: "EventReader \<Rightarrow> (u64 \<times> u64) option \<Rightarrow> u64 \<times> u64" where
  "KernelStats er lookup =
     (if \<not> er_objs er then (0, 0)
      else case lookup of None \<Rightarrow> (0, 0) | Some (packets, bytes) \<Rightarrow> (packets, bytes))"

subsection \<open>Decoding a sample\<close>

text \<open>Little-endian words: \<open>binary.Read\<close> with \<open>LittleEndian\<close>, field by field.\<close>

definition le_word :: "u8 list \<Rightarrow> 'a::len word" where
  "le_word bs = foldr (\<lambda>b w. ucast b OR push_bit 8 w) bs 0"

definition le_bytes :: "nat \<Rightarrow> 'a::len word \<Rightarrow> u8 list" where
  "le_bytes n w = map (\<lambda>i. ucast (drop_bit (8 * i) w)) [0..<n]"

definition field :: "u8 list \<Rightarrow> nat \<Rightarrow> nat \<Rightarrow> 'a::len word" where
  "field data off n = le_word (take n (drop off data))"

record raw_event =
  raw_TimestampNs :: u64
  raw_Saddr :: u32
  raw_Daddr :: u32
  raw_Sport :: u16
  raw_Dport :: u16
  raw_Protocol :: u8
  raw_Pad1 :: u8
  raw_Pad2 :: u16
  raw_Len :: u32
  raw_CpuId :: u32
  raw_QueueMapping :: u16
  raw_Pad3 :: u16

text \<open>\<open>binary.Read\<close> of the anonymous struct: it needs all of its 36 bytes.\<close>

definition binary_Read_raw :: "u8 list \<Rightarrow> ext_error + raw_event" where
  "binary_Read_raw data =
     (if data = [] then Inl ''EOF''
      else if length data < 36 then Inl ''unexpected EOF''
      else Inr \<lparr>raw_TimestampNs = field data 0 8, raw_Saddr = field data 8 4, raw_Daddr = field data 12 4,
                raw_Sport = field data 16 2, raw_Dport = field data 18 2, raw_Protocol = field data 20 1,
                raw_Pad1 = field data 21 1, raw_Pad2 = field data 22 2, raw_Len = field data 24 4,
                raw_CpuId = field data 28 4, raw_QueueMapping = field data 32 2, raw_Pad3 = field data 34 2\<rparr>)"

definition expectedSize :: nat where
  "expectedSize = 36"

definition parsePacketEvent :: "u8 list \<Rightarrow> string + PacketEvent" where
  "parsePacketEvent data =
     (if length data < expectedSize then
        Inl (''short sample: got '' @ dec (length data) @ '' bytes, want '' @ dec expectedSize)
      else case binary_Read_raw data of
        Inl err \<Rightarrow> Inl (''binary.Read: '' @ err)
      | Inr raw \<Rightarrow>
          Inr \<lparr>evt_TimestampNs = raw_TimestampNs raw, evt_Hash = 0, evt_Saddr = raw_Saddr raw,
               evt_Daddr = raw_Daddr raw, evt_Sport = raw_Sport raw, evt_Dport = raw_Dport raw,
               evt_Protocol = raw_Protocol raw, evt_ProbePoint = 0, evt_Pad1 = 0,
               evt_Len = raw_Len raw, evt_CpuId = raw_CpuId raw,
               evt_QueueMapping = raw_QueueMapping raw, evt_Pad2 = 0, evt_Payload = []\<rparr>)"

lemma bit_le_word:
  "bit (le_word bs :: 'a::len word) i \<longleftrightarrow>
     i < LENGTH('a) \<and> i div 8 < length bs \<and> bit (bs ! (i div 8)) (i mod 8)"
proof (induction bs arbitrary: i)
  case Nil
  then show ?case by (simp add: le_word_def)
next
  case (Cons b bs)
  have step: "le_word (b # bs) = ucast b OR push_bit 8 (le_word bs :: 'a word)"
    by (simp add: le_word_def)
  show ?case
  proof (cases "i < 8")
    case True
    then show ?thesis by (simp add: step bit_simps)
  next
    case False
    then obtain j where j: "i = j + 8" by (metis add.commute le_Suc_ex not_less)
    have "\<not> bit b i" using False bit_imp_le_length [of b i] by auto
    moreover have "i div 8 = Suc (j div 8)" "i mod 8 = j mod 8"
      using j by simp_all
    ultimately show ?thesis
      using Cons.IH [of j] j by (auto simp: step bit_simps)
  qed
qed

lemma le_word_le_bytes:
  fixes w :: "'a::len word"
  assumes "LENGTH('a) \<le> 8 * n"
  shows "le_word (le_bytes n w) = w"
proof (rule bit_word_eqI)
  fix i
  assume i: "i < LENGTH('a)"
  then have "i div 8 < n" using assms by (simp add: less_mult_imp_div_less)
  then show "bit (le_word (le_bytes n w) :: 'a word) i = bit w i"
    using i by (simp add: bit_le_word le_bytes_def bit_simps mult.commute)
qed

lemma length_le_bytes [simp]: "length (le_bytes n w) = n"
  by (simp add: le_bytes_def)

lemma field_le_bytes:
  fixes w :: "'a::len word"
  assumes "length pre = off" and "LENGTH('a) \<le> 8 * n"
  shows "field (pre @ le_bytes n w @ post) off n = w"
  using assms by (simp add: field_def le_word_le_bytes)

text \<open>The bytes of a sample, in the layout of the kernel's \<open>struct packet_event\<close>.\<close>

definition encode_raw :: "raw_event \<Rightarrow> u8 list" where
  "encode_raw r = le_bytes 8 (raw_TimestampNs r) @ le_bytes 4 (raw_Saddr r) @ le_bytes 4 (raw_Daddr r) @
     le_bytes 2 (raw_Sport r) @ le_bytes 2 (raw_Dport r) @ le_bytes 1 (raw_Protocol r) @
     le_bytes 1 (raw_Pad1 r) @ le_bytes 2 (raw_Pad2 r) @ le_bytes 4 (raw_Len r) @
     le_bytes 4 (raw_CpuId r) @ le_bytes 2 (raw_QueueMapping r) @ le_bytes 2 (raw_Pad3 r)"

lemma length_encode_raw [simp]: "length (encode_raw r) = 36"
  by (simp add: encode_raw_def)

lemma binary_Read_encode: "binary_Read_raw (encode_raw r @ rest) = Inr r"
proof -
  let ?d = "encode_raw r @ rest"
  have f: "field ?d 0 8 = raw_TimestampNs r" "field ?d 8 4 = raw_Saddr r" "field ?d 12 4 = raw_Daddr r"
    "field ?d 16 2 = raw_Sport r" "field ?d 18 2 = raw_Dport r" "field ?d 20 1 = raw_Protocol r"
    "field ?d 21 1 = raw_Pad1 r" "field ?d 22 2 = raw_Pad2 r" "field ?d 24 4 = raw_Len r"
    "field ?d 28 4 = raw_CpuId r" "field ?d 32 2 = raw_QueueMapping r" "field ?d 34 2 = raw_Pad3 r"
    by (simp_all add: encode_raw_def field_def le_word_le_bytes)
  have "length ?d = 36 + length rest"
    by simp
  then have "\<not> length ?d < 36" "?d \<noteq> []"
    by (linarith, metis list.size(3) add_is_0 zero_neq_numeral)
  with f show ?thesis by (simp add: binary_Read_raw_def)
qed

subsection \<open>The read loop\<close>

text \<open>What the ring-buffer reader returned: closed, another error, or the bytes of a sample.\<close>

datatype read_result = ReadClosed | ReadFailed ext_error | RawSample "u8 list"

text \<open>
  One iteration of \<open>readLoop\<close>: the new state, and whether the loop goes on. The last
  \<open>select\<close> has two cases that can be ready together, delivery (the channel has room) and
  the closed stop channel; the runtime picks one of the ready cases, which is the argument
  \<open>pick_stop\<close>, and takes the default only when neither is ready. \<open>stop_during\<close> says whether
  the stop channel was closed while the iteration was reading.
\<close>

definition deliver :: "time \<Rightarrow> bool \<Rightarrow> PacketEvent \<Rightarrow> EventReader \<Rightarrow> EventReader \<times> bool" where
  "deliver now pick_stop evt er =
     (let room = (length (er_eventsChan er) < eventsChanCap) in
      if er_stopClosed er \<and> (pick_stop \<or> \<not> room) then (er, False)
      else if room then (er\<lparr>er_eventsChan := er_eventsChan er @ [evt]\<rparr>, True)
      else (er\<lparr>er_droppedInUserspace := er_droppedInUserspace er + 1,
               er_Status := sl_Warn (er_Status er) now ''Channel full, dropped event''\<rparr>, True))"

definition readLoop_step ::
    "time \<Rightarrow> bool \<Rightarrow> bool \<Rightarrow> read_result \<Rightarrow> EventReader \<Rightarrow> EventReader \<times> bool" where
  "readLoop_step now stop_during pick_stop res er =
     (if er_stopClosed er then (er, False)
      else
        let er = er\<lparr>er_stopClosed := stop_during\<rparr> in
        case res of
          ReadClosed \<Rightarrow> (er, False)
        | ReadFailed err \<Rightarrow>
            ((if er_verbose er then er\<lparr>er_Status := sl_Warn (er_Status er) now (''Read error: '' @ err)\<rparr>
              else er), True)
        | RawSample bytes \<Rightarrow>
            (case parsePacketEvent bytes of
               Inl err \<Rightarrow> (er\<lparr>er_Status := sl_Warn (er_Status er) now (''Parse error: '' @ err)\<rparr>, True)
             | Inr evt \<Rightarrow> deliver now pick_stop evt er))"

text \<open>The loop over what the outside world gives, iteration by iteration.\<close>

type_synonym read_input = "time \<times> bool \<times> bool \<times> read_result"

fun readLoop_from :: "read_input list \<Rightarrow> EventReader \<Rightarrow> EventReader" where
  "readLoop_from [] er = er"
| "readLoop_from ((now, stop_during, pick_stop, res) # ins) er =
     (let (er', continue) = readLoop_step now stop_during pick_stop res er
      in if continue then readLoop_from ins er' else er')"

definition readLoop :: "time \<Rightarrow> read_input list \<Rightarrow> EventReader \<Rightarrow> EventReader" where
  "readLoop now ins er =
     readLoop_from ins (er\<lparr>er_Status := sl_Info (er_Status er) now ''Read loop started''\<rparr>)"

subsection \<open>The interface watcher\<close>

text \<open>
  One tick of \<open>interfaceWatcherLoop\<close>. \<open>lookup\<close> is the result of looking the interface up. The
  flag \<open>lastUp\<close> is a local variable of the loop.
\<close>

definition watcher_tick ::
    "time \<Rightarrow> ext_error + iface \<Rightarrow> EventReader \<times> bool \<Rightarrow> EventReader \<times> bool" where
  "watcher_tick now lookup = (\<lambda>(er, lastUp).
     case lookup of
       Inl err \<Rightarrow>
         (er\<lparr>er_Status := sl_Warn (er_Status er) now
              (''Interface '' @ if_name (er_iface er) @ '' lookup failed: '' @ err)\<rparr>, lastUp)
     | Inr i \<Rightarrow>
         (let isUp = (if_flags i AND FlagUp \<noteq> 0) in
          if isUp \<noteq> lastUp then
            ((if isUp then er\<lparr>er_Status := sl_Info (er_Status er) now
                   (''Interface '' @ if_name (er_iface er) @ '' is UP'')\<rparr>
              else er\<lparr>er_Status := sl_Warn (er_Status er) now
                   (''Interface '' @ if_name (er_iface er) @ '' is DOWN '' @ em_dash @ '' capture paused'')\<rparr>),
             isUp)
          else (er, lastUp)))"

text \<open>The loop over its ticks; \<open>pick_stop\<close> is the choice of the \<open>select\<close> when the stop channel is closed too.\<close>

fun interfaceWatcherLoop ::
    "(time \<times> bool \<times> (ext_error + iface)) list \<Rightarrow> EventReader \<times> bool \<Rightarrow> EventReader \<times> bool" where
  "interfaceWatcherLoop [] s = s"
| "interfaceWatcherLoop ((now, pick_stop, lookup) # ticks) s =
     (if er_stopClosed (fst s) \<and> pick_stop then s else interfaceWatcherLoop ticks (watcher_tick now lookup s))"

definition startWatcher :: "(time \<times> bool \<times> (ext_error + iface)) list \<Rightarrow> EventReader \<Rightarrow> EventReader \<times> bool" where
  "startWatcher ticks er = interfaceWatcherLoop ticks (er, True)"

subsection \<open>Lemmas\<close>

text \<open>
  The handles that are open after a list of effects, the newest first; closing a handle that is
  not the newest open one is an error (\<^const>\<open>None\<close>).
\<close>

fun open_handles :: "handle list \<Rightarrow> effect list \<Rightarrow> handle list option" where
  "open_handles hs [] = Some hs"
| "open_handles hs (Open h # es) = open_handles (h # hs) es"
| "open_handles (h' # hs) (Close h # es) = (if h = h' then open_handles hs es else None)"
| "open_handles [] (Close h # es) = None"

text \<open>The events that a list of inputs of the read loop decodes to, in order.\<close>

fun decoded :: "read_input list \<Rightarrow> PacketEvent list" where
  "decoded [] = []"
| "decoded ((now, stop_during, pick_stop, res) # ins) =
     (case res of
        RawSample bytes \<Rightarrow> (case parsePacketEvent bytes of Inr evt \<Rightarrow> evt # decoded ins | Inl _ \<Rightarrow> decoded ins)
      | _ \<Rightarrow> decoded ins)"

text \<open>Inputs during which neither \<open>Close\<close> is called nor the kernel's buffer closed.\<close>

definition running :: "read_input \<Rightarrow> bool" where
  "running = (\<lambda>(now, stop_during, pick_stop, res). \<not> stop_during \<and> res \<noteq> ReadClosed)"

lemma readLoop_step_running:
  assumes "\<not> er_stopClosed er" and "running (now, sd, ps, res)"
    and "readLoop_step now sd ps res er = (er', continue)"
  shows "continue \<and> \<not> er_stopClosed er' \<and>
    er_eventsChan er' = er_eventsChan er @
      take (eventsChanCap - length (er_eventsChan er)) (decoded [(now, sd, ps, res)]) \<and>
    er_droppedInUserspace er' = er_droppedInUserspace er +
      of_nat (length (decoded [(now, sd, ps, res)]) - (eventsChanCap - length (er_eventsChan er)))"
proof (cases res)
  case (RawSample bytes)
  show ?thesis
    using assms
    by (cases "parsePacketEvent bytes"; cases "length (er_eventsChan er) < eventsChanCap")
      (auto simp: readLoop_step_def running_def deliver_def RawSample Let_def)
qed (use assms in \<open>auto simp: readLoop_step_def running_def Let_def split: if_splits\<close>)

lemma readLoop_from_running:
  "\<not> er_stopClosed er \<Longrightarrow> list_all running ins \<Longrightarrow>
   er_eventsChan (readLoop_from ins er) =
     er_eventsChan er @ take (eventsChanCap - length (er_eventsChan er)) (decoded ins) \<and>
   er_droppedInUserspace (readLoop_from ins er) =
     er_droppedInUserspace er + of_nat (length (decoded ins) - (eventsChanCap - length (er_eventsChan er)))"
proof (induction ins arbitrary: er)
  case (Cons i ins)
  obtain now sd ps res where i: "i = (now, sd, ps, res)" by (cases i) auto
  obtain er' c where step: "readLoop_step now sd ps res er = (er', c)" by fastforce
  let ?room = "eventsChanCap - length (er_eventsChan er)"
  from readLoop_step_running [OF Cons.prems(1) _ step] Cons.prems(2) i
  have s: "c" "\<not> er_stopClosed er'"
    "er_eventsChan er' = er_eventsChan er @ take ?room (decoded [i])"
    "er_droppedInUserspace er' = er_droppedInUserspace er + of_nat (length (decoded [i]) - ?room)"
    by auto
  have one: "decoded (i # ins) = decoded [i] @ decoded ins" "length (decoded [i]) \<le> 1"
    by (auto simp: i split: read_result.split sum.split)
  have IH: "er_eventsChan (readLoop_from ins er') =
     er_eventsChan er' @ take (eventsChanCap - length (er_eventsChan er')) (decoded ins)"
    "er_droppedInUserspace (readLoop_from ins er') =
     er_droppedInUserspace er' + of_nat (length (decoded ins) - (eventsChanCap - length (er_eventsChan er')))"
    using Cons.IH [OF s(2)] Cons.prems(2) by simp_all
  have "readLoop_from (i # ins) er = readLoop_from ins er'"
    using step s(1) by (simp add: i)
  moreover have "of_nat (length (decoded [i]) - ?room) +
      (of_nat (length (decoded ins) - (?room - min (length (decoded [i])) ?room)) :: u64) =
      of_nat (length (decoded (i # ins)) - ?room)"
    using one(2) unfolding one(1) of_nat_add [symmetric] by (intro arg_cong [where f = of_nat]) auto
  ultimately show ?case
    using IH s(3,4) unfolding one(1) by (simp add: ac_simps min_def)
qed simp

text \<open>The state changes in a list of observations, starting from a known state.\<close>

fun changes :: "bool \<Rightarrow> (time \<times> bool) list \<Rightarrow> (time \<times> bool) list" where
  "changes prev [] = []"
| "changes prev ((now, up) # obs) =
     (if up = prev then changes prev obs else (now, up) # changes up obs)"

definition change_message :: "string \<Rightarrow> time \<times> bool \<Rightarrow> time \<times> string \<times> string" where
  "change_message name = (\<lambda>(now, up).
     if up then (now, ''info'', ''Interface '' @ name @ '' is UP'')
     else (now, ''warn'', ''Interface '' @ name @ '' is DOWN '' @ em_dash @ '' capture paused''))"

definition observed :: "(time \<times> iface) list \<Rightarrow> (time \<times> bool) list" where
  "observed obs = map (\<lambda>(now, i). (now, if_flags i AND FlagUp \<noteq> 0)) obs"

lemma watcher_status:
  "\<not> er_stopClosed er \<Longrightarrow>
   gfold status_add (er_Status er) (map (change_message (if_name (er_iface er))) (changes lastUp (observed obs))) =
     Inr (er_Status (fst (interfaceWatcherLoop (map (\<lambda>(now, i). (now, False, Inr i)) obs) (er, lastUp))))"
proof (induction obs arbitrary: er lastUp)
  case (Cons ob obs)
  obtain now i where ob: "ob = (now, i)" by (cases ob)
  let ?up = "if_flags i AND FlagUp \<noteq> 0"
  show ?case
    using Cons.prems
    by (cases "?up = lastUp"; cases ?up)
      (auto simp: ob observed_def watcher_tick_def change_message_def status_add_def
        sl_Info_def sl_Warn_def Let_def simp flip: Cons.IH [unfolded observed_def])
qed (simp add: observed_def)

lemma changes_alternate: "distinct_adj (prev # map snd (changes prev obs))"
  by (induction prev obs rule: changes.induct) (auto simp: distinct_adj_Cons)

lemma first_preferred_Some:
  "first_preferred byName names = Some i \<Longrightarrow>
     \<exists>pre name post. names = pre @ name # post \<and> byName name = Inr i \<and> if_flags i AND FlagUp \<noteq> 0 \<and>
       (\<forall>n \<in> set pre. \<forall>j. byName n = Inr j \<longrightarrow> if_flags j AND FlagUp = 0)"
proof (induction names)
  case (Cons n names)
  show ?case
  proof (cases "\<exists>j. byName n = Inr j \<and> if_flags j AND FlagUp \<noteq> 0")
    case True
    then have "byName n = Inr i" "if_flags i AND FlagUp \<noteq> 0" using Cons.prems by auto
    then show ?thesis by (intro exI [of _ "[]"] exI [of _ n] exI [of _ names]) simp
  next
    case False
    then have "first_preferred byName names = Some i"
      using Cons.prems by (auto split: sum.splits if_splits)
    from Cons.IH [OF this] obtain pre name post where "names = pre @ name # post"
      "byName name = Inr i" "if_flags i AND FlagUp \<noteq> 0"
      "\<forall>m \<in> set pre. \<forall>j. byName m = Inr j \<longrightarrow> if_flags j AND FlagUp = 0" by blast
    then show ?thesis using False by (intro exI [of _ "n # pre"]) auto
  qed
qed simp

lemma first_preferred_None:
  "first_preferred byName names = None \<longleftrightarrow>
     (\<forall>n \<in> set names. \<forall>j. byName n = Inr j \<longrightarrow> if_flags j AND FlagUp = 0)"
  by (induction names) (auto split: sum.splits)

lemma first_usable_find:
  "first_usable is = find (\<lambda>i. if_flags i AND FlagUp \<noteq> 0 \<and> if_flags i AND FlagLoopback = 0) is"
  by (induction "is") auto

lemma findPrimaryInterface_up:
  assumes "findPrimaryInterface os = Inr i"
  shows "if_flags i AND FlagUp \<noteq> 0"
proof (cases "first_preferred (os_InterfaceByName os) preferred")
  case None
  with assms obtain xs where "os_Interfaces os = Inr xs" "first_usable xs = Some i"
    by (auto simp: findPrimaryInterface_def split: sum.splits option.splits)
  then show ?thesis by (auto simp: first_usable_find find_Some_iff)
next
  case (Some j)
  with assms first_preferred_Some [OF Some] show ?thesis
    by (auto simp: findPrimaryInterface_def)
qed

subsection \<open>Properties\<close>

lemma parsePacketEvent_encode:
  "parsePacketEvent (encode_raw r @ rest) =
       Inr \<lparr>evt_TimestampNs = raw_TimestampNs r, evt_Hash = 0, evt_Saddr = raw_Saddr r,
            evt_Daddr = raw_Daddr r, evt_Sport = raw_Sport r, evt_Dport = raw_Dport r,
            evt_Protocol = raw_Protocol r, evt_ProbePoint = 0, evt_Pad1 = 0, evt_Len = raw_Len r,
            evt_CpuId = raw_CpuId r, evt_QueueMapping = raw_QueueMapping r, evt_Pad2 = 0,
            evt_Payload = []\<rparr>"
  by (simp add: parsePacketEvent_def expectedSize_def binary_Read_encode)

text \<open>
  C31: Decoding inverts the kernel's layout. A sample is accepted exactly when it has at least 36
  bytes; a sample in the layout of \<open>struct packet_event\<close>, with any bytes after it, decodes to
  an event with the same time stamp, addresses, ports, protocol, length, processor and queue; a
  decoded event never carries a payload.
\<close>

theorem parsePacketEvent_decodes:
  "(\<exists>evt. parsePacketEvent data = Inr evt) = (36 \<le> length data)
   \<and> (\<forall>evt. parsePacketEvent data = Inr evt \<longrightarrow> evt_Payload evt = [])
   \<and> parsePacketEvent (encode_raw r @ rest) =
       Inr \<lparr>evt_TimestampNs = raw_TimestampNs r, evt_Hash = 0, evt_Saddr = raw_Saddr r,
            evt_Daddr = raw_Daddr r, evt_Sport = raw_Sport r, evt_Dport = raw_Dport r,
            evt_Protocol = raw_Protocol r, evt_ProbePoint = 0, evt_Pad1 = 0, evt_Len = raw_Len r,
            evt_CpuId = raw_CpuId r, evt_QueueMapping = raw_QueueMapping r, evt_Pad2 = 0,
            evt_Payload = []\<rparr>"
proof (intro conjI)
  show "(\<exists>evt. parsePacketEvent data = Inr evt) = (36 \<le> length data)"
    by (auto simp: parsePacketEvent_def expectedSize_def binary_Read_raw_def)
  show "\<forall>evt. parsePacketEvent data = Inr evt \<longrightarrow> evt_Payload evt = []"
    by (auto simp: parsePacketEvent_def split: if_splits sum.splits)
qed (rule parsePacketEvent_encode)

theorem parsePacketEvent_decodes_witness:
  "\<exists>evt. parsePacketEvent (replicate 40 7) = Inr evt \<and> evt_Payload evt = []"
  using parsePacketEvent_decodes [of "replicate 40 7" undefined "[]"] by auto

text \<open>
  C35: Start-up leaks nothing. Whatever the outside world answers, when \<open>NewEventReader\<close> fails
  every handle it opened has been closed again, in reverse order. When it succeeds the reader
  holds the three handles, its interface was up or named by the user, and closing the reader
  closes all three in reverse order of opening; closing it a second time panics.
\<close>

theorem NewEventReader_releases:
  "case NewEventReader os ifaceName verbose of
     (Inl err, effects) \<Rightarrow> open_handles [] effects = Some []
   | (Inr er, effects) \<Rightarrow>
       open_handles [] effects = Some [RingReader, XdpLink, Objs] \<and>
       (ifaceName = '''' \<longrightarrow> if_flags (er_iface er) AND FlagUp \<noteq> 0) \<and>
       (\<exists>er' closing. CloseReader er = Inr (er', closing) \<and>
          open_handles [] (effects @ closing) = Some [] \<and>
          CloseReader er' = Inl CloseOfClosedChannel)"
  using findPrimaryInterface_up [of os]
  by (auto simp: NewEventReader_def targetInterface_def CloseReader_def Let_def
      split: option.splits sum.splits if_splits)

theorem NewEventReader_releases_witness:
  "open_handles [] (snd (NewEventReader
     \<lparr>os_RemoveMemlock = None, os_InterfaceByName = (\<lambda>n. Inr \<lparr>if_name = n, if_index = 2, if_flags = 1\<rparr>),
      os_Interfaces = Inr [], os_loadBpfObjects = None, os_AttachXDP = (\<lambda>_. None),
      os_NewRingReader = Some ''no memory'', os_now = 0\<rparr> ''eth0'' False)) = Some []"
  using NewEventReader_releases [where os = "\<lparr>os_RemoveMemlock = None,
      os_InterfaceByName = (\<lambda>n. Inr \<lparr>if_name = n, if_index = 2, if_flags = 1\<rparr>),
      os_Interfaces = Inr [], os_loadBpfObjects = None, os_AttachXDP = (\<lambda>_. None),
      os_NewRingReader = Some ''no memory'', os_now = 0\<rparr>" and ifaceName = "''eth0''" and verbose = False]
  by (simp add: NewEventReader_def targetInterface_def Let_def)

text \<open>
  C37: Automatic interface selection. The chosen interface is up; it is the first interface of
  the preference list that exists and is up, whatever else the machine has; only when no
  preferred one is up is it the first interface of the machine that is up and not a loopback;
  and when there is none the selection fails.
\<close>

theorem findPrimaryInterface_correct:
  "case findPrimaryInterface os of
     Inr i \<Rightarrow> if_flags i AND FlagUp \<noteq> 0 \<and>
       ((\<exists>pre name post. preferred = pre @ name # post \<and> os_InterfaceByName os name = Inr i \<and>
           (\<forall>n \<in> set pre. \<forall>j. os_InterfaceByName os n = Inr j \<longrightarrow> if_flags j AND FlagUp = 0))
        \<or> (\<forall>n \<in> set preferred. \<forall>j. os_InterfaceByName os n = Inr j \<longrightarrow> if_flags j AND FlagUp = 0) \<and>
          (\<exists>is. os_Interfaces os = Inr is \<and>
             find (\<lambda>i. if_flags i AND FlagUp \<noteq> 0 \<and> if_flags i AND FlagLoopback = 0) is = Some i))
   | Inl _ \<Rightarrow> (\<forall>n \<in> set preferred. \<forall>j. os_InterfaceByName os n = Inr j \<longrightarrow> if_flags j AND FlagUp = 0) \<and>
       (\<forall>is. os_Interfaces os = Inr is \<longrightarrow>
          (\<forall>i \<in> set is. if_flags i AND FlagUp = 0 \<or> if_flags i AND FlagLoopback \<noteq> 0))"
proof (cases "first_preferred (os_InterfaceByName os) preferred")
  case None
  then have down: "\<forall>n \<in> set preferred. \<forall>j. os_InterfaceByName os n = Inr j \<longrightarrow> if_flags j AND FlagUp = 0"
    by (simp add: first_preferred_None)
  show ?thesis
  proof (cases "os_Interfaces os")
    case (Inl err)
    then have "findPrimaryInterface os = Inl (ListInterfacesFailed err)"
      using None by (simp add: findPrimaryInterface_def)
    then show ?thesis using down Inl by simp
  next
    case (Inr xs)
    show ?thesis
    proof (cases "first_usable xs")
      assume "first_usable xs = None"
      moreover from this have "findPrimaryInterface os = Inl NoSuitableInterface"
        using None Inr by (simp add: findPrimaryInterface_def)
      ultimately show ?thesis using down Inr by (auto simp: first_usable_find find_None_iff)
    next
      fix i assume usable: "first_usable xs = Some i"
      then have found: "findPrimaryInterface os = Inr i"
        using None Inr by (simp add: findPrimaryInterface_def)
      from usable have "find (\<lambda>i. if_flags i AND FlagUp \<noteq> 0 \<and> if_flags i AND FlagLoopback = 0) xs = Some i"
        by (simp add: first_usable_find)
      then show ?thesis
        using down Inr found findPrimaryInterface_up [OF found] by simp
    qed
  qed
next
  case (Some i)
  then have found: "findPrimaryInterface os = Inr i" by (simp add: findPrimaryInterface_def)
  from first_preferred_Some [OF Some]
  have "\<exists>pre name post. preferred = pre @ name # post \<and> os_InterfaceByName os name = Inr i \<and>
      (\<forall>n \<in> set pre. \<forall>j. os_InterfaceByName os n = Inr j \<longrightarrow> if_flags j AND FlagUp = 0)" by blast
  then show ?thesis
    using findPrimaryInterface_up [OF found] by (simp only: found sum.case simp_thms)
qed

theorem findPrimaryInterface_correct_witness:
  "findPrimaryInterface \<lparr>os_RemoveMemlock = None, os_InterfaceByName = (\<lambda>n. Inl ''none''),
      os_Interfaces = Inr [\<lparr>if_name = ''lo'', if_index = 1, if_flags = 5\<rparr>], os_loadBpfObjects = None,
      os_AttachXDP = (\<lambda>_. None), os_NewRingReader = None, os_now = 0\<rparr> = Inl NoSuitableInterface
   \<and> (5 AND FlagLoopback :: u64) \<noteq> 0"
  using findPrimaryInterface_correct [of "\<lparr>os_RemoveMemlock = None, os_InterfaceByName = (\<lambda>n. Inl ''none''),
      os_Interfaces = Inr [\<lparr>if_name = ''lo'', if_index = 1, if_flags = 5\<rparr>], os_loadBpfObjects = None,
      os_AttachXDP = (\<lambda>_. None), os_NewRingReader = None, os_now = 0\<rparr>"]
  by (simp add: findPrimaryInterface_def preferred_def FlagUp_def FlagLoopback_def)

text \<open>
  C32: The read loop accounts for every sample. While it runs and nothing takes events from the
  channel, the channel receives the decoded samples in order until it holds 10000 events, and
  each decoded sample after that is counted as dropped, once.
\<close>

theorem readLoop_accounts:
  assumes "\<not> er_stopClosed er" and "list_all running ins" and "length (er_eventsChan er) \<le> eventsChanCap"
  shows "er_eventsChan (readLoop now ins er) = take eventsChanCap (er_eventsChan er @ decoded ins)
    \<and> er_droppedInUserspace (readLoop now ins er) = er_droppedInUserspace er +
        of_nat (length (er_eventsChan er @ decoded ins) - eventsChanCap)"
  using readLoop_from_running [of "er\<lparr>er_Status := sl_Info (er_Status er) now ''Read loop started''\<rparr>" ins] assms
  by (simp add: readLoop_def add.commute)

theorem readLoop_accounts_witness:
  "er_eventsChan (readLoop 0 [(1, False, False, RawSample [1, 2, 3])]
     \<lparr>er_objs = True, er_xdpLink = True, er_ringReader = True, er_eventsChan = [], er_stopClosed = False,
      er_iface = \<lparr>if_name = ''eth0'', if_index = 1, if_flags = 1\<rparr>, er_verbose = False,
      er_droppedInUserspace = 0, er_Status = \<lparr>sl_messages = [], sl_maxSize = 100\<rparr>\<rparr>) = []"
  using readLoop_accounts [of "\<lparr>er_objs = True, er_xdpLink = True, er_ringReader = True, er_eventsChan = [], er_stopClosed = False,
      er_iface = \<lparr>if_name = ''eth0'', if_index = 1, if_flags = 1\<rparr>, er_verbose = False,
      er_droppedInUserspace = 0, er_Status = \<lparr>sl_messages = [], sl_maxSize = 100\<rparr>\<rparr>"
      "[(1, False, False, RawSample [1, 2, 3])]" 0]
  by (simp add: running_def parsePacketEvent_def expectedSize_def)

text \<open>
  C38: The watcher reports changes only. For any sequence of successful look-ups, the messages the
  watcher writes are one \<open>UP\<close> or \<open>DOWN\<close> message for each change of state, starting from up, so
  the reported states alternate and start with down; a state that repeats writes nothing.
\<close>

theorem watcher_reports_changes:
  assumes "\<not> er_stopClosed er"
  shows "gfold status_add (er_Status er)
       (map (change_message (if_name (er_iface er))) (changes True (observed obs))) =
     Inr (er_Status (fst (startWatcher (map (\<lambda>(now, i). (now, False, Inr i)) obs) er)))
   \<and> distinct_adj (True # map snd (changes True (observed obs)))"
  using watcher_status [OF assms, of True obs] changes_alternate [of True "observed obs"]
  by (simp add: startWatcher_def)

theorem watcher_reports_changes_witness:
  "map snd (changes True (observed [(1, \<lparr>if_name = ''e'', if_index = 1, if_flags = 0\<rparr>),
     (2, \<lparr>if_name = ''e'', if_index = 1, if_flags = 0\<rparr>), (3, \<lparr>if_name = ''e'', if_index = 1, if_flags = 1\<rparr>)])) = [False, True]
   \<and> distinct_adj [True, False, True]"
  using watcher_reports_changes [of "\<lparr>er_objs = True, er_xdpLink = True, er_ringReader = True, er_eventsChan = [], er_stopClosed = False,
      er_iface = \<lparr>if_name = ''eth0'', if_index = 1, if_flags = 1\<rparr>, er_verbose = False,
      er_droppedInUserspace = 0, er_Status = \<lparr>sl_messages = [], sl_maxSize = 100\<rparr>\<rparr>"
      "[(1, \<lparr>if_name = ''e'', if_index = 1, if_flags = 0\<rparr>),
     (2, \<lparr>if_name = ''e'', if_index = 1, if_flags = 0\<rparr>), (3, \<lparr>if_name = ''e'', if_index = 1, if_flags = 1\<rparr>)]"]
  by (simp add: observed_def FlagUp_def)

end
