(* ===== verification/Xdp.thy ===== *)
theory Xdp
  imports Dns Reader
begin

text \<open>
  \<^verbatim>\<open>bpf/packet.c\<close>: the XDP program that sees every frame, counts it, and submits one event for
  every IPv4 packet. The frame is the byte list between \<open>data\<close> and \<open>data_end\<close>; every field access
  is a checked read of it, so that an access outside the frame would be a \<open>SliceOutOfRange\<close>. The
  target is little-endian, so an integer field that the program copies without \<open>bpf_ntohs\<close> is
  read in little-endian order.
\<close>

subsection \<open>State and environment\<close>

record kernel_stats =
  ks_packets :: u64
  ks_bytes :: u64

record xdp_md =
  md_frame :: "u8 list"
  md_rx_queue_index :: u32

text \<open>What the helpers of the kernel return during one run.\<close>

record xdp_env =
  env_map_elem :: bool
  env_ringbuf_reserve :: bool
  env_ktime_ns :: u64
  env_cpu_id :: u32

datatype xdp_action = XDP_ABORTED | XDP_DROP | XDP_PASS | XDP_TX | XDP_REDIRECT

definition ETH_P_IP :: u16 where "ETH_P_IP = 0x0800"
definition IPPROTO_TCP :: u8 where "IPPROTO_TCP = 6"
definition IPPROTO_UDP :: u8 where "IPPROTO_UDP = 17"

definition sizeof_ethhdr :: nat where "sizeof_ethhdr = 14"
definition sizeof_iphdr :: nat where "sizeof_iphdr = 20"
definition sizeof_tcphdr :: nat where "sizeof_tcphdr = 20"
definition sizeof_udphdr :: nat where "sizeof_udphdr = 8"

subsection \<open>Field access\<close>

text \<open>\<open>bpf_ntohs\<close> of a 16-bit field, a byte, and a 32-bit field copied as it is.\<close>

definition read_ntohs :: "u8 list \<Rightarrow> nat \<Rightarrow> u16 go" where
  "read_ntohs frame off = gbind (gslice frame (int off) (int (off + 2))) be16"

definition read_u8 :: "u8 list \<Rightarrow> nat \<Rightarrow> u8 go" where
  "read_u8 frame off = gindex frame off"

definition read_u32 :: "u8 list \<Rightarrow> nat \<Rightarrow> u32 go" where
  "read_u32 frame off = gbind (gslice frame (int off) (int (off + 4))) (\<lambda>b. Inr (le_word b))"

subsection \<open>The program\<close>

text \<open>Port extraction: \<open>ip_end\<close> is the offset of the transport header.\<close>

definition xdp_ports :: "u8 list \<Rightarrow> u8 \<Rightarrow> nat \<Rightarrow> (u16 \<times> u16) go" where
  "xdp_ports frame protocol ip_end =
     (if protocol = IPPROTO_TCP then
        (if ip_end + sizeof_tcphdr \<le> length frame
         then gbind (read_ntohs frame ip_end) (\<lambda>sport.
              gbind (read_ntohs frame (ip_end + 2)) (\<lambda>dport. Inr (sport, dport)))
         else Inr (0, 0))
      else if protocol = IPPROTO_UDP then
        (if ip_end + sizeof_udphdr \<le> length frame
         then gbind (read_ntohs frame ip_end) (\<lambda>sport.
              gbind (read_ntohs frame (ip_end + 2)) (\<lambda>dport. Inr (sport, dport)))
         else Inr (0, 0))
      else Inr (0, 0))"

definition xdp_event :: "xdp_md \<Rightarrow> xdp_env \<Rightarrow> raw_event option go" where
  "xdp_event ctx env =
     (let frame = md_frame ctx; data_end = length frame; ip = sizeof_ethhdr in
      if sizeof_ethhdr > data_end then Inr None
      else gbind (read_ntohs frame 12) (\<lambda>h_proto.
      if h_proto \<noteq> ETH_P_IP then Inr None
      else if ip + sizeof_iphdr > data_end then Inr None
      else gbind (read_u8 frame ip) (\<lambda>b0.
      let ihl = unat (b0 AND 0x0F) in
      if ihl < 5 then Inr None
      else let ip_end = ip + ihl * 4 in
      if ip_end > data_end then Inr None
      else if \<not> env_ringbuf_reserve env then Inr None
      else gbind (read_ntohs frame (ip + 2)) (\<lambda>tot_len.
      gbind (read_u32 frame (ip + 12)) (\<lambda>saddr.
      gbind (read_u32 frame (ip + 16)) (\<lambda>daddr.
      gbind (read_u8 frame (ip + 9)) (\<lambda>protocol.
      gbind (xdp_ports frame protocol ip_end) (\<lambda>(sport, dport).
        Inr (Some \<lparr>raw_TimestampNs = env_ktime_ns env, raw_Saddr = saddr, raw_Daddr = daddr,
              raw_Sport = sport, raw_Dport = dport, raw_Protocol = protocol, raw_Pad1 = 0,
              raw_Pad2 = 0, raw_Len = ucast tot_len, raw_CpuId = env_cpu_id env,
              raw_QueueMapping = ucast (md_rx_queue_index ctx), raw_Pad3 = 0\<rparr>)))))))))"

text \<open>
  The whole program: the counters are incremented first, always; the result is the action, the
  counters and the submitted event, if any.
\<close>

definition xdp_probe_func ::
    "xdp_md \<Rightarrow> xdp_env \<Rightarrow> kernel_stats \<Rightarrow> (xdp_action \<times> kernel_stats \<times> raw_event option) go" where
  "xdp_probe_func ctx env stats =
     (let stats' = (if env_map_elem env
        then stats\<lparr>ks_packets := ks_packets stats + 1,
                   ks_bytes := ks_bytes stats + of_nat (length (md_frame ctx))\<rparr>
        else stats)
      in gbind (xdp_event ctx env) (\<lambda>evt. Inr (XDP_PASS, stats', evt)))"

text \<open>
  The bytes of the submitted sample: \<open>struct packet_event\<close> has 36 bytes of fields and, because
  of its 64-bit member, four bytes of padding.
\<close>

definition sample_bytes :: "u8 list \<Rightarrow> raw_event \<Rightarrow> u8 list" where
  "sample_bytes padding r = encode_raw r @ padding"

subsection \<open>Lemmas\<close>

lemma read_ntohs_ok:
  assumes "off + 2 \<le> length frame"
  shows "read_ntohs frame off = Inr (ucast (frame ! (off + 1)) OR push_bit 8 (ucast (frame ! off)))"
proof -
  have "take 2 (drop off frame) = [frame ! off, frame ! (off + 1)]"
    using assms by (intro nth_equalityI) (auto simp: less_Suc_eq numeral_2_eq_2)
  moreover have "gslice frame (int off) (int (off + 2)) = Inr (take 2 (drop off frame))"
    using gslice_ok [of off "off + 2" frame] assms by (simp only: le_add1 diff_add_inverse)
  ultimately show ?thesis
    by (simp only: read_ntohs_def gbind_simps be16_pair)
qed

lemma read_u32_ok: "off + 4 \<le> length frame \<Longrightarrow> read_u32 frame off = Inr (le_word (take 4 (drop off frame)))"
  using gslice_ok [of off "off + 4" frame] by (simp only: read_u32_def le_add1 diff_add_inverse gbind_simps)

lemma read_u8_ok: "off < length frame \<Longrightarrow> read_u8 frame off = Inr (frame ! off)"
  by (simp add: read_u8_def)

lemmas read_ok = read_ntohs_ok read_u32_ok read_u8_ok

lemma xdp_ports_ok: "\<exists>p. xdp_ports frame protocol ip_end = Inr p"
  by (simp add: xdp_ports_def read_ok sizeof_tcphdr_def sizeof_udphdr_def)

text \<open>The frames for which an event is submitted.\<close>

definition ip_header_len :: "u8 list \<Rightarrow> nat" where
  "ip_header_len frame = 4 * unat (frame ! 14 AND 0x0F)"

definition capturable :: "u8 list \<Rightarrow> bool" where
  "capturable frame \<longleftrightarrow> 34 \<le> length frame \<and> frame ! 12 = 0x08 \<and> frame ! 13 = 0x00 \<and>
     20 \<le> ip_header_len frame \<and> 14 + ip_header_len frame \<le> length frame"

text \<open>The two bytes of a big-endian 16-bit value, and the value in terms of them.\<close>

lemma be_pair_bytes:
  "ucast (drop_bit 8 (ucast (b :: u8) OR push_bit 8 (ucast (a :: u8)) :: u16)) = a"
  "ucast (ucast (b :: u8) OR push_bit 8 (ucast (a :: u8)) :: u16) = b"
  by (rule bit_word_eqI, auto simp: bit_simps dest: bit_imp_le_length)+

lemma ethertype_iff: "(ucast (b :: u8) OR push_bit 8 (ucast (a :: u8)) :: u16) = 0x0800 \<longleftrightarrow> a = 0x08 \<and> b = 0x00"
proof
  assume "(ucast b OR push_bit 8 (ucast a) :: u16) = 0x0800"
  then show "a = 0x08 \<and> b = 0x00" using be_pair_bytes [of b a] by auto
qed simp

lemma be_pair_unat:
  "unat (ucast (b :: u8) OR push_bit 8 (ucast (a :: u8)) :: u16) = 256 * unat a + unat b"
proof -
  let ?w = "ucast b OR push_bit 8 (ucast a) :: u16"
  have "unat ?w < 2 ^ LENGTH(16)" by (rule unsigned_less)
  then have w: "unat ?w < 65536" by simp
  then have "unat ?w div 256 < 256" by (simp add: div_less_iff_less_mult)
  with w have "unat (ucast (drop_bit 8 ?w) :: u8) = unat ?w div 256" "unat (ucast ?w :: u8) = unat ?w mod 256"
    by (simp_all only: unsigned_ucast_eq unsigned_drop_bit_eq) (simp_all add: take_bit_eq_mod drop_bit_eq_div)
  then have "unat a = unat ?w div 256" "unat b = unat ?w mod 256"
    by (simp_all only: be_pair_bytes)
  then show ?thesis by simp
qed

text \<open>Which frames are captured, and what the event holds.\<close>

definition transport_ports :: "u8 list \<Rightarrow> u16 \<times> u16" where
  "transport_ports frame =
     (let off = 14 + ip_header_len frame; p = frame ! 23 in
      if (p = 6 \<and> off + 20 \<le> length frame) \<or> (p = 17 \<and> off + 8 \<le> length frame)
      then (ucast (frame ! (off + 1)) OR push_bit 8 (ucast (frame ! off)),
            ucast (frame ! (off + 3)) OR push_bit 8 (ucast (frame ! (off + 2))))
      else (0, 0))"

lemma xdp_ports_transport:
  "xdp_ports frame (frame ! 23) (14 + ip_header_len frame) = Inr (transport_ports frame)"
  by (simp add: xdp_ports_def transport_ports_def Let_def sizeof_tcphdr_def sizeof_udphdr_def
      IPPROTO_TCP_def IPPROTO_UDP_def read_ok numeral_3_eq_3)

definition captured_event :: "xdp_md \<Rightarrow> xdp_env \<Rightarrow> raw_event" where
  "captured_event ctx env =
     (let frame = md_frame ctx in
      \<lparr>raw_TimestampNs = env_ktime_ns env, raw_Saddr = le_word (take 4 (drop 26 frame)),
       raw_Daddr = le_word (take 4 (drop 30 frame)), raw_Sport = fst (transport_ports frame),
       raw_Dport = snd (transport_ports frame), raw_Protocol = frame ! 23, raw_Pad1 = 0, raw_Pad2 = 0,
       raw_Len = ucast (ucast (frame ! 17) OR push_bit 8 (ucast (frame ! 16)) :: u16),
       raw_CpuId = env_cpu_id env, raw_QueueMapping = ucast (md_rx_queue_index ctx), raw_Pad3 = 0\<rparr>)"

lemma xdp_event_captured:
  assumes "capturable (md_frame ctx)" and "env_ringbuf_reserve env"
  shows "xdp_event ctx env = Inr (Some (captured_event ctx env))"
proof -
  let ?f = "md_frame ctx"
  have len: "34 \<le> length ?f" "?f ! 12 = 0x08" "?f ! 13 = 0x00" "5 \<le> unat (?f ! 14 AND 0x0F)"
    "14 + ip_header_len ?f \<le> length ?f"
    using assms(1) by (simp_all add: capturable_def ip_header_len_def)
  have ihl: "14 + unat (?f ! 14 AND 0x0F) * 4 = 14 + ip_header_len ?f"
    by (simp add: ip_header_len_def)
  show ?thesis
    unfolding xdp_event_def Let_def sizeof_ethhdr_def
    using len assms(2)
    by (simp add: ihl read_ok sizeof_iphdr_def ETH_P_IP_def xdp_ports_transport captured_event_def Let_def
        split: prod.split)
qed

lemma xdp_event_not_captured:
  assumes "\<not> (capturable (md_frame ctx) \<and> env_ringbuf_reserve env)"
  shows "xdp_event ctx env = Inr None"
proof (cases "34 \<le> length (md_frame ctx) \<and> md_frame ctx ! 12 = 0x08 \<and> md_frame ctx ! 13 = 0x00")
  case True
  then show ?thesis
    using assms
    by (auto simp: xdp_event_def Let_def sizeof_ethhdr_def read_ok sizeof_iphdr_def ETH_P_IP_def
        capturable_def ip_header_len_def)
next
  case False
  then show ?thesis
    by (auto simp: xdp_event_def Let_def sizeof_ethhdr_def read_ok sizeof_iphdr_def ETH_P_IP_def
        ethertype_iff)
qed

lemma le_word_byte:
  assumes "k < length bs" and "8 * k + 8 \<le> LENGTH('a)"
  shows "ucast (drop_bit (8 * k) (le_word bs :: 'a::len word)) = bs ! k"
proof (rule bit_word_eqI)
  fix n assume "n < LENGTH(8)"
  then have n: "n < 8" by simp
  then have "(8 * k + n) div 8 = k" "(8 * k + n) mod 8 = n" by simp_all
  then show "bit (ucast (drop_bit (8 * k) (le_word bs :: 'a word)) :: u8) n = bit (bs ! k) n"
    using n assms by (simp add: bit_simps bit_le_word)
qed

lemma le_word_rev_IP:
  assumes "length bs = 4"
  shows "IP_String (IPFromUint32 (le_word bs)) = dotted (rev bs)"
proof -
  obtain a b c d where bs: "bs = [a, b, c, d]"
    using assms by (auto simp: numeral_eq_Suc length_Suc_conv)
  let ?w = "le_word [a, b, c, d] :: u32"
  have "ucast (drop_bit 24 ?w) = d" "ucast (drop_bit 16 ?w) = c" "ucast (drop_bit 8 ?w) = b" "ucast ?w = a"
    using le_word_byte [of 3 "[a, b, c, d]", where 'a = 32] le_word_byte [of 2 "[a, b, c, d]", where 'a = 32]
      le_word_byte [of 1 "[a, b, c, d]", where 'a = 32] le_word_byte [of 0 "[a, b, c, d]", where 'a = 32]
    by simp_all
  then show ?thesis
    using ip_text_dotted [of ?w] by (simp add: bs ip_text_def)
qed

lemma xdp_probe_func_result:
  "xdp_probe_func ctx env stats = Inr (XDP_PASS,
     (if env_map_elem env then \<lparr>ks_packets = ks_packets stats + 1,
        ks_bytes = ks_bytes stats + of_nat (length (md_frame ctx))\<rparr> else stats),
     (if capturable (md_frame ctx) \<and> env_ringbuf_reserve env then Some (captured_event ctx env) else None))"
proof (cases "capturable (md_frame ctx) \<and> env_ringbuf_reserve env")
  case True
  then show ?thesis using xdp_event_captured [of ctx env] by (simp add: xdp_probe_func_def)
next
  case False
  then show ?thesis using xdp_event_not_captured [of ctx env] by (auto simp: xdp_probe_func_def)
qed

subsection \<open>Properties\<close>

text \<open>
  C30: The XDP program is memory safe and lets every frame pass. Whatever the frame, no read leaves it,
  the action is \<open>XDP_PASS\<close>, and when the counter exists it counts the frame and its bytes, before
  anything is parsed. An event is submitted exactly for the frames that hold a whole IPv4 header of
  at least 20 bytes behind an Ethernet header of type IPv4 (if the ring buffer has room), and
  it holds that frame's ports (zero unless a whole TCP or UDP header follows), length and protocol.
\<close>

theorem xdp_probe_func_correct:
  "xdp_probe_func ctx env stats = Inr (XDP_PASS,
     (if env_map_elem env then \<lparr>ks_packets = ks_packets stats + 1,
        ks_bytes = ks_bytes stats + of_nat (length (md_frame ctx))\<rparr> else stats),
     (if capturable (md_frame ctx) \<and> env_ringbuf_reserve env then Some (captured_event ctx env) else None))"
  by (rule xdp_probe_func_result)

text \<open>
  C29: From the wire to the aggregator, ports, length and protocol are right and addresses are
  reversed. For every captured frame, the decoded event has the ports, protocol and total length
  of the frame, but the address text made of it has the four bytes of the wire address in
  reverse order: the program copies the address in network byte order, the decoder reads
  it in little-endian order, and \<open>IPFromUint32\<close> takes the most significant byte first.
\<close>

theorem wire_addresses_reversed:
  assumes "capturable (md_frame ctx)" and "env_ringbuf_reserve env"
  shows "\<exists>stats' r evt. xdp_probe_func ctx env stats = Inr (XDP_PASS, stats', Some r) \<and>
      parsePacketEvent (sample_bytes padding r) = Inr evt \<and>
      (evt_Sport evt, evt_Dport evt) = transport_ports (md_frame ctx) \<and>
      evt_Protocol evt = md_frame ctx ! 23 \<and>
      unat (evt_Len evt) = 256 * unat (md_frame ctx ! 16) + unat (md_frame ctx ! 17) \<and>
      IP_String (IPFromUint32 (evt_Saddr evt)) = dotted (rev (take 4 (drop 26 (md_frame ctx)))) \<and>
      IP_String (IPFromUint32 (evt_Daddr evt)) = dotted (rev (take 4 (drop 30 (md_frame ctx))))"
proof -
  have len: "34 \<le> length (md_frame ctx)" using assms(1) by (simp add: capturable_def)
  have be: "unat (ucast (ucast (b :: u8) OR push_bit 8 (ucast (a :: u8)) :: u16) :: u32) = 256 * unat a + unat b" for a b
  proof -
    have "unat a < 256" "unat b < 256" using unsigned_less [of a] unsigned_less [of b] by simp_all
    then show ?thesis
      by (simp add: unsigned_ucast_eq be_pair_unat take_bit_eq_mod)
  qed
  show ?thesis
    using parsePacketEvent_encode [of "captured_event ctx env" padding] assms len be
    by (simp add: xdp_probe_func_def xdp_event_captured sample_bytes_def captured_event_def Let_def le_word_rev_IP)
qed

text \<open>An IPv4 UDP packet from 192.168.1.10 port 40000 to 8.8.8.8 port 53.\<close>

definition example_frame :: "u8 list" where
  "example_frame = replicate 12 0 @ [0x08, 0x00,
     0x45, 0, 0, 28, 0, 0, 0, 0, 64, 17, 0, 0, 192, 168, 1, 10, 8, 8, 8, 8,
     0x9C, 0x40, 0, 53, 0, 8, 0, 0]"

lemma example_frame_eq: "example_frame = [0, 0, 0, 0, 0, 0, 0, 0, 0, 0, 0, 0, 0x08, 0x00,
     0x45, 0, 0, 28, 0, 0, 0, 0, 64, 17, 0, 0, 192, 168, 1, 10, 8, 8, 8, 8,
     0x9C, 0x40, 0, 53, 0, 8, 0, 0]"
  by (simp add: example_frame_def numeral_eq_Suc)

theorem wire_addresses_reversed_witness:
  "\<exists>r evt. xdp_probe_func \<lparr>md_frame = example_frame, md_rx_queue_index = 0\<rparr>
        \<lparr>env_map_elem = False, env_ringbuf_reserve = True, env_ktime_ns = 5, env_cpu_id = 1\<rparr>
        \<lparr>ks_packets = 0, ks_bytes = 0\<rparr> = Inr (XDP_PASS, \<lparr>ks_packets = 0, ks_bytes = 0\<rparr>, Some r) \<and>
      parsePacketEvent (sample_bytes [0, 0, 0, 0] r) = Inr evt \<and>
      IP_String (IPFromUint32 (evt_Saddr evt)) = ''10.1.168.192''"
proof -
  have cap: "capturable example_frame"
    by (simp add: capturable_def ip_header_len_def example_frame_eq)
  have addr: "dotted (rev (take 4 (drop 26 example_frame))) = ''10.1.168.192''"
    by (simp add: example_frame_eq dotted_4 printing)
  show ?thesis
    using wire_addresses_reversed [of "\<lparr>md_frame = example_frame, md_rx_queue_index = 0\<rparr>"
        "\<lparr>env_map_elem = False, env_ringbuf_reserve = True, env_ktime_ns = 5, env_cpu_id = 1\<rparr>"
        "\<lparr>ks_packets = 0, ks_bytes = 0\<rparr>" "[0, 0, 0, 0]"] cap
    by (auto simp: addr xdp_probe_func_result)
qed

end
