(* ===== verification/GoFloat.thy ===== *)
theory GoFloat
  imports Prelude "HOL-Library.Log_Nat"
begin

text \<open>
  Go's \<open>float64\<close>. A finite value is the rational number it stands for; every operation computes
  exactly and rounds to the nearest number with a 53-bit significand, ties to even (\<open>fl\<close>). The
  values the program computes lie between \<open>2 ^ (-130)\<close> and \<open>2 ^ 90\<close> in magnitude or are zero,
  so exponent overflow and subnormal numbers do not arise, and it never divides by zero.

  The second part is the printing of \<open>%.nf\<close>: the exact value rounded to \<open>n\<close> decimals, ties to even,
  as \<open>strconv\<close> does.
\<close>

subsection \<open>Rounding\<close>

text \<open>Round to the nearest integer, ties to even.\<close>

definition rne :: "rat \<Rightarrow> int" where
  "rne x = (let f = \<lfloor>x\<rfloor>; d = x - of_int f in
     if d < 1 / 2 then f else if 1 / 2 < d then f + 1 else if even f then f else f + 1)"

text \<open>The exponent of a positive number: \<open>2 ^ e \<le> x < 2 ^ (e + 1)\<close>.\<close>

definition ilog2 :: "rat \<Rightarrow> int" where
  "ilog2 x = (let (p, q) = quotient_of x;
                  e = int (floorlog 2 (nat p)) - int (floorlog 2 (nat q))
              in if 2 powi e \<le> x then e else e - 1)"

definition fl :: "rat \<Rightarrow> rat" where
  "fl x = (if x = 0 then 0
           else let u = 2 powi (ilog2 \<bar>x\<bar> - 52) in of_int (rne (x / u)) * u)"

subsection \<open>The type and its operations\<close>

datatype f64 = F64 (rat_of: rat)

instantiation f64 :: linorder
begin

definition less_eq_f64 :: "f64 \<Rightarrow> f64 \<Rightarrow> bool" where
  "less_eq_f64 a b \<longleftrightarrow> rat_of a \<le> rat_of b"

definition less_f64 :: "f64 \<Rightarrow> f64 \<Rightarrow> bool" where
  "less_f64 a b \<longleftrightarrow> rat_of a < rat_of b"

instance
  by standard (auto simp: less_eq_f64_def less_f64_def f64.expand)

end

definition f_int :: "int \<Rightarrow> f64" where
  "f_int i = F64 (fl (of_int i))"

definition f_u64 :: "u64 \<Rightarrow> f64" where
  "f_u64 w = F64 (fl (of_nat (unat w)))"

definition f_add :: "f64 \<Rightarrow> f64 \<Rightarrow> f64" where
  "f_add a b = F64 (fl (rat_of a + rat_of b))"

definition f_mul :: "f64 \<Rightarrow> f64 \<Rightarrow> f64" where
  "f_mul a b = F64 (fl (rat_of a * rat_of b))"

definition f_div :: "f64 \<Rightarrow> f64 \<Rightarrow> f64" where
  "f_div a b = F64 (fl (rat_of a / rat_of b))"

text \<open>Conversion to an integer discards the fraction.\<close>

definition f_trunc :: "f64 \<Rightarrow> int" where
  "f_trunc a = (if rat_of a < 0 then - \<lfloor>- rat_of a\<rfloor> else \<lfloor>rat_of a\<rfloor>)"

text \<open>
  Conversion to \<open>uint64\<close>; for a value out of range the language leaves the result to the
  implementation, which is the argument \<open>oob\<close>.
\<close>

definition f_to_u64 :: "(f64 \<Rightarrow> u64) \<Rightarrow> f64 \<Rightarrow> u64" where
  "f_to_u64 oob a = (let t = f_trunc a in if 0 \<le> t \<and> t < 2 ^ 64 then word_of_int t else oob a)"

text \<open>The text of \<open>%.nf\<close>.\<close>

definition pad_zeros :: "nat \<Rightarrow> string \<Rightarrow> string" where
  "pad_zeros n s = replicate (n - length s) CHR ''0'' @ s"

definition fixed :: "nat \<Rightarrow> f64 \<Rightarrow> string" where
  "fixed n a = (let x = rat_of a; k = nat (rne (\<bar>x\<bar> * 10 ^ n)) in
     (if x < 0 then ''-'' else '''') @ dec (k div 10 ^ n) @
     (if n = 0 then '''' else CHR ''.'' # pad_zeros n (dec (k mod 10 ^ n))))"

subsection \<open>Lemmas: integer rounding\<close>

lemma rne_of_int [simp]: "rne (of_int n) = n"
  by (simp add: rne_def)

lemma rne_bounds: "of_int (rne x) - x \<le> 1 / 2 \<and> x - of_int (rne x) \<le> 1 / 2"
proof -
  define f where "f = \<lfloor>x\<rfloor>"
  have "of_int f \<le> x" "x < of_int f + 1" by (simp_all add: f_def) linarith+
  then show ?thesis
    by (auto simp: rne_def Let_def simp flip: f_def)
qed

lemma rne_mono: "x \<le> y \<Longrightarrow> rne x \<le> rne y"
proof (cases "\<lfloor>x\<rfloor> = \<lfloor>y\<rfloor>")
  case True
  assume "x \<le> y"
  with True show ?thesis by (auto simp: rne_def Let_def)
next
  case False
  assume "x \<le> y"
  then have "\<lfloor>x\<rfloor> + 1 \<le> \<lfloor>y\<rfloor>" using False floor_mono [of x y] by linarith
  moreover have "rne x \<le> \<lfloor>x\<rfloor> + 1" "\<lfloor>y\<rfloor> \<le> rne y" by (simp_all add: rne_def Let_def)
  ultimately show ?thesis by linarith
qed

lemma rne_le_of_int: "x \<le> of_int n \<Longrightarrow> rne x \<le> n"
  using rne_mono [of x "of_int n"] by simp

lemma of_int_le_rne: "of_int n \<le> x \<Longrightarrow> n \<le> rne x"
  using rne_mono [of "of_int n" x] by simp

subsection \<open>Lemmas: the exponent\<close>

lemma powi_less_mono: "m < n \<Longrightarrow> (2::rat) powi m < 2 powi n"
  by (rule power_int_strict_increasing) simp_all

lemma powi_le_mono: "m \<le> n \<Longrightarrow> (2::rat) powi m \<le> 2 powi n"
  using powi_less_mono [of m n] by (cases "m = n") auto

lemma powi_less_cancel: "(2::rat) powi m < 2 powi n \<Longrightarrow> m < n"
  using powi_le_mono [of n m] by (meson not_less)

lemma powi_nat: "(2::rat) powi int n = 2 ^ n"
  by (simp add: power_int_def)

lemma ilog2_bounds:
  assumes "0 < x"
  shows "2 powi ilog2 x \<le> x \<and> x < 2 powi (ilog2 x + 1)"
proof -
  obtain p q where pq: "quotient_of x = (p, q)" by fastforce
  have q: "0 < q" and x: "x = of_int p / of_int q"
    using quotient_of_denom_pos [OF pq] quotient_of_div [OF pq] by auto
  have p: "0 < p" using assms q unfolding x by (simp add: zero_less_divide_iff)
  define lp lq where "lp = floorlog 2 (nat p)" and "lq = floorlog 2 (nat q)"
  have bp: "2 ^ (lp - 1) \<le> nat p" "nat p < 2 ^ lp"
    using floorlog_bounds [of "nat p" 2] p by (simp_all add: lp_def)
  have bq: "2 ^ (lq - 1) \<le> nat q" "nat q < 2 ^ lq"
    using floorlog_bounds [of "nat q" 2] q by (simp_all add: lq_def)
  have pos: "0 < lp" "0 < lq"
    using p q by (simp_all add: lp_def lq_def floorlog_eq_zero_iff zero_less_iff_neq_zero)
  have P: "(2::rat) powi (int lp - 1) \<le> of_int p" "of_int p < (2::rat) powi int lp"
    using bp p pos(1) powi_nat [of "lp - 1"] powi_nat [of lp]
    by (simp_all add: of_nat_diff nat_less_iff le_nat_iff flip: of_int_power_le_of_int_cancel_iff)
  have Q: "(2::rat) powi (int lq - 1) \<le> of_int q" "of_int q < (2::rat) powi int lq"
    using bq q pos(2) powi_nat [of "lq - 1"] powi_nat [of lq]
    by (simp_all add: of_nat_diff nat_less_iff le_nat_iff flip: of_int_power_le_of_int_cancel_iff)
  define e where "e = int lp - int lq"
  have lower: "2 powi (e - 1) \<le> x"
  proof -
    have "2 powi (e - 1) * of_int q \<le> (2::rat) powi (e - 1) * 2 powi int lq"
      using Q(2) by (intro mult_left_mono) simp_all
    also have "\<dots> = 2 powi (int lp - 1)"
      by (subst power_int_add [symmetric]) (simp_all add: e_def)
    finally show ?thesis using P(1) q by (simp add: x pos_le_divide_eq)
  qed
  have upper: "x < 2 powi (e + 1)"
  proof -
    have "(2::rat) powi int lp = 2 powi (e + 1) * 2 powi (int lq - 1)"
      by (subst power_int_add [symmetric]) (simp_all add: e_def)
    also have "\<dots> \<le> 2 powi (e + 1) * of_int q"
      using Q(1) by (intro mult_left_mono) simp_all
    finally have "of_int p < (2::rat) powi (e + 1) * of_int q" using P(2) by linarith
    then show ?thesis using q by (simp add: x pos_divide_less_eq)
  qed
  show ?thesis
    using lower upper by (auto simp: ilog2_def pq Let_def e_def lp_def lq_def)
qed

lemma ilog2_unique:
  assumes "2 powi e \<le> x" and "x < 2 powi (e + 1)"
  shows "ilog2 x = e"
proof -
  have "0 < x" using assms(1) by (rule less_le_trans [rotated]) simp
  then have b: "2 powi ilog2 x \<le> x" "x < 2 powi (ilog2 x + 1)" using ilog2_bounds by auto
  have "(2::rat) powi e < 2 powi (ilog2 x + 1)" "(2::rat) powi ilog2 x < 2 powi (e + 1)"
    using assms b by linarith+
  then show ?thesis by (force dest: powi_less_cancel)
qed

subsection \<open>Lemmas: rounding to 53 bits\<close>

lemma fl_0 [simp]: "fl 0 = 0"
  by (simp add: fl_def)

lemma fl_pos: "0 < x \<Longrightarrow> fl x = of_int (rne (x / 2 powi (ilog2 x - 52))) * 2 powi (ilog2 x - 52)"
  by (simp add: fl_def Let_def)

text \<open>The scaled significand lies between \<open>2 ^ 52\<close> and \<open>2 ^ 53\<close>.\<close>

lemma significand_bounds:
  assumes "0 < x"
  shows "(2 ^ 52 :: rat) \<le> x / 2 powi (ilog2 x - 52) \<and> x / 2 powi (ilog2 x - 52) < 2 ^ 53"
proof -
  let ?e = "ilog2 x"
  have "(2::rat) powi ?e = 2 ^ 52 * 2 powi (?e - 52)" "(2::rat) powi (?e + 1) = 2 ^ 53 * 2 powi (?e - 52)"
    using power_int_add [of "2::rat" 52 "?e - 52"] power_int_add [of "2::rat" 53 "?e - 52"]
    by (simp_all add: add.commute)
  then show ?thesis
    using ilog2_bounds [OF assms] by (simp add: pos_le_divide_eq pos_divide_less_eq)
qed

lemma fl_bounds:
  assumes "0 < x"
  shows "2 powi ilog2 x \<le> fl x \<and> fl x \<le> 2 powi (ilog2 x + 1)"
proof -
  let ?e = "ilog2 x" and ?s = "x / 2 powi (ilog2 x - 52)"
  have "(2::int) ^ 52 \<le> rne ?s" "rne ?s \<le> 2 ^ 53"
    using significand_bounds [OF assms]
    by (auto intro!: of_int_le_rne rne_le_of_int simp del: power_numeral)
  then have "(2::rat) ^ 52 \<le> of_int (rne ?s)" "of_int (rne ?s) \<le> (2::rat) ^ 53"
    by (metis of_int_le_iff of_int_numeral of_int_power)+
  then have "2 ^ 52 * 2 powi (?e - 52) \<le> fl x" "fl x \<le> 2 ^ 53 * 2 powi (?e - 52)"
    unfolding fl_pos [OF assms] by (intro mult_right_mono; simp)+
  moreover have "(2::rat) ^ 52 * 2 powi (?e - 52) = 2 powi ?e" "(2::rat) ^ 53 * 2 powi (?e - 52) = 2 powi (?e + 1)"
    using power_int_add [of "2::rat" 52 "?e - 52"] power_int_add [of "2::rat" 53 "?e - 52"]
    by (simp_all add: add.commute)
  ultimately show ?thesis by simp
qed

lemma fl_nonneg: "0 \<le> x \<Longrightarrow> 0 \<le> fl x"
proof (cases "x = 0")
  case False
  assume "0 \<le> x"
  with False have "2 powi ilog2 x \<le> fl x" using fl_bounds by simp
  moreover have "(0::rat) < 2 powi ilog2 x" by simp
  ultimately show ?thesis by linarith
qed simp

lemma fl_mono:
  assumes "0 \<le> x" and "x \<le> y"
  shows "fl x \<le> fl y"
proof (cases "x = 0")
  case True
  then show ?thesis using fl_nonneg [of y] assms by simp
next
  case False
  with assms have pos: "0 < x" "0 < y" by auto
  have "(2::rat) powi ilog2 x < 2 powi (ilog2 y + 1)"
    using ilog2_bounds [OF pos(1)] ilog2_bounds [OF pos(2)] assms(2) by linarith
  then have le: "ilog2 x \<le> ilog2 y" by (force dest: powi_less_cancel)
  show ?thesis
  proof (cases "ilog2 x = ilog2 y")
    case True
    then have "rne (x / 2 powi (ilog2 x - 52)) \<le> rne (y / 2 powi (ilog2 y - 52))"
      using assms(2) by (intro rne_mono) (simp add: divide_right_mono)
    then show ?thesis
      unfolding fl_pos [OF pos(1)] fl_pos [OF pos(2)] True by (intro mult_right_mono) auto
  next
    case False
    with le have "(2::rat) powi (ilog2 x + 1) \<le> 2 powi ilog2 y" by (intro powi_le_mono) simp
    then show ?thesis
      using fl_bounds [OF pos(1)] fl_bounds [OF pos(2)] by linarith
  qed
qed

text \<open>A number with a 53-bit significand is not changed by rounding.\<close>

lemma fl_representable:
  assumes "0 \<le> m" and "m < 2 ^ 53"
  shows "fl (of_int m * 2 powi k) = of_int m * 2 powi k"
proof (cases "m = 0")
  case False
  let ?x = "of_int m * 2 powi k :: rat"
  from False assms have pos: "0 < ?x" by simp
  have "(of_int m :: rat) < 2 ^ 53"
    using assms(2) by (metis of_int_less_iff of_int_numeral of_int_power)
  then have "?x < 2 ^ 53 * 2 powi k" by (intro mult_strict_right_mono) simp_all
  also have "\<dots> = 2 powi (53 + k)" using power_int_add [of "2::rat" 53 k] by simp
  finally have "(2::rat) powi ilog2 ?x < 2 powi (53 + k)"
    using ilog2_bounds [OF pos] by linarith
  then have le: "ilog2 ?x - 52 \<le> k" by (force dest: powi_less_cancel)
  define j where "j = nat (k - (ilog2 ?x - 52))"
  have "2 powi k = (2::rat) ^ j * 2 powi (ilog2 ?x - 52)"
    using le power_int_add [of "2::rat" "int j" "ilog2 ?x - 52"] powi_nat [of j] by (simp add: j_def)
  then have "?x = of_int (m * 2 ^ j) * 2 powi (ilog2 ?x - 52)"
    by (metis mult.assoc of_int_mult of_int_numeral of_int_power)
  then have "?x / 2 powi (ilog2 ?x - 52) = of_int (m * 2 ^ j)"
    by (metis nonzero_mult_div_cancel_right power_int_eq_0_iff zero_neq_numeral)
  then show ?thesis
    unfolding fl_pos [OF pos] by (metis rne_of_int nonzero_divide_eq_eq power_int_eq_0_iff zero_neq_numeral)
qed simp

lemma fl_of_int: "0 \<le> m \<Longrightarrow> m < 2 ^ 53 \<Longrightarrow> fl (of_int m) = of_int m"
  using fl_representable [of m 0] by simp

text \<open>Rounding stays below any representable upper bound.\<close>

lemma fl_le_representable:
  assumes "0 \<le> x" and "x \<le> of_int m * 2 powi k" and "0 \<le> m" and "m < 2 ^ 53"
  shows "fl x \<le> of_int m * 2 powi k"
  using fl_mono [OF assms(1,2)] fl_representable [OF assms(3,4)] by simp

lemma representable_le_fl:
  assumes "of_int m * 2 powi k \<le> x" and "0 \<le> m" and "m < 2 ^ 53"
  shows "of_int m * 2 powi k \<le> fl x"
  using fl_mono [of "of_int m * 2 powi k" x] fl_representable [OF assms(2,3)] assms by simp

text \<open>The relative error of rounding is at most \<open>2 ^ (-53)\<close>.\<close>

lemma fl_error:
  assumes "0 < x"
  shows "\<bar>fl x - x\<bar> \<le> x / 2 ^ 53"
proof -
  let ?u = "2 powi (ilog2 x - 52) :: rat"
  have u: "0 < ?u" by simp
  have "\<bar>of_int (rne (x / ?u)) - x / ?u\<bar> \<le> 1 / 2" using rne_bounds [of "x / ?u"] by linarith
  then have "\<bar>of_int (rne (x / ?u)) - x / ?u\<bar> * ?u \<le> 1 / 2 * ?u" by (intro mult_right_mono) simp_all
  moreover have "\<bar>of_int (rne (x / ?u)) - x / ?u\<bar> * ?u = \<bar>(of_int (rne (x / ?u)) - x / ?u) * ?u\<bar>"
    using u by (simp only: abs_mult abs_of_pos)
  moreover have "(of_int (rne (x / ?u)) - x / ?u) * ?u = fl x - x"
    unfolding fl_pos [OF assms] using u by (simp add: left_diff_distrib)
  moreover have "2 ^ 52 * ?u \<le> x"
    using significand_bounds [OF assms] by (simp add: pos_le_divide_eq)
  ultimately show ?thesis by simp
qed

end
