(* ===== verification/Aggregator.thy ===== *)
theory Aggregator
  imports Dns GoFloat
begin

text \<open>
  \<^verbatim>\<open>internal/monitor/aggregator.go\<close>: the flow aggregator.

  Flows and their packet histories are shared by pointer between the aggregator and the dashboard.
  They live in a store: a flow pointer is an index into \<open>st_flows\<close>, a history pointer an index into
  \<open>st_rings\<close>, and allocation appends. The aggregator's map takes a key to a flow pointer. Every
  operation holds the aggregator's mutex while it reads or writes the map, so it is one step; the
  clock reading is an argument, and so is the order in which \<open>range\<close> visits the map.
\<close>

subsection \<open>State\<close>

record store =
  st_flows :: "Flow list"
  st_rings :: "PacketRecord ring_buffer list"

record GlobalAggregatorStats =
  gs_TotalPackets :: u64
  gs_TotalBytes :: u64
  gs_DroppedPackets :: u64
  gs_LastUpdated :: time

record FlowAggregator =
  fa_flows :: "(string, nat) gmap"
  fa_flowTimeout :: duration
  fa_stopClosed :: bool
  fa_globalStats :: GlobalAggregatorStats
  fa_droppedPackets :: u64
  fa_packetBufferSize :: int

text \<open>\<open>model.GlobalStats\<close>; \<open>GetGlobalStats\<close> leaves the three rates at zero.\<close>

record GlobalStats =
  glob_TotalPackets :: u64
  glob_TotalBytes :: u64
  glob_TotalFlows :: u64
  glob_DroppedPackets :: u64
  glob_PacketLossRate :: f64
  glob_UpstreamTime :: time
  glob_CurrentTime :: time
  glob_PacketsPerSec :: f64
  glob_BytesPerSec :: f64
  glob_MbpsRate :: f64

subsection \<open>The parts of package \<open>time\<close> the program uses\<close>

text \<open>The zero \<open>time.Time\<close>: midnight of January 1 of the year 1.\<close>

definition zero_time :: time where
  "zero_time = - 62135596800 * 10 ^ 9"

text \<open>\<open>Sub\<close> saturates at the ends of the 64-bit duration range.\<close>

definition time_Sub :: "time \<Rightarrow> time \<Rightarrow> duration" where
  "time_Sub t u = max (- (2 ^ 63)) (min (2 ^ 63 - 1) (t - u))"

subsection \<open>Construction, stopping, snapshots\<close>

definition NewFlowAggregator :: "time \<Rightarrow> duration \<Rightarrow> int \<Rightarrow> FlowAggregator" where
  "NewFlowAggregator now flowTimeout packetBufferSize =
     (let size1 = (if packetBufferSize < 1000 then 1000 else packetBufferSize);
          size2 = (if size1 > 50000 then 50000 else size1)
      in \<lparr>fa_flows = [], fa_flowTimeout = flowTimeout, fa_stopClosed = False,
          fa_globalStats = \<lparr>gs_TotalPackets = 0, gs_TotalBytes = 0, gs_DroppedPackets = 0,
                            gs_LastUpdated = now\<rparr>,
          fa_droppedPackets = 0, fa_packetBufferSize = size2\<rparr>)"

definition Stop :: "FlowAggregator \<Rightarrow> FlowAggregator go" where
  "Stop fa = (if fa_stopClosed fa then Inl CloseOfClosedChannel else Inr (fa\<lparr>fa_stopClosed := True\<rparr>))"

text \<open>The snapshot of all flows; \<open>order\<close> is the iteration order of the map.\<close>

definition GetAllFlows :: "((string, nat) gmap \<Rightarrow> (string, nat) gmap) \<Rightarrow> FlowAggregator \<Rightarrow> nat list" where
  "GetAllFlows order fa = map snd (order (fa_flows fa))"

definition GetGlobalStats :: "time \<Rightarrow> FlowAggregator \<Rightarrow> GlobalStats" where
  "GetGlobalStats now fa =
     (let gs = fa_globalStats fa;
          lossRate = (if gs_TotalPackets gs > 0
                      then f_div (f_u64 (gs_DroppedPackets gs))
                                 (f_u64 (gs_TotalPackets gs + gs_DroppedPackets gs))
                      else F64 0)
      in \<lparr>glob_TotalPackets = gs_TotalPackets gs, glob_TotalBytes = gs_TotalBytes gs,
          glob_TotalFlows = of_nat (length (fa_flows fa)), glob_DroppedPackets = gs_DroppedPackets gs,
          glob_PacketLossRate = lossRate, glob_UpstreamTime = gs_LastUpdated gs,
          glob_CurrentTime = now, glob_PacketsPerSec = F64 0, glob_BytesPerSec = F64 0,
          glob_MbpsRate = F64 0\<rparr>)"

subsection \<open>Flow keys\<close>

definition getFlowKey :: "PacketEvent \<Rightarrow> string" where
  "getFlowKey evt =
     (let srcIP = IP_String (IPFromUint32 (evt_Saddr evt));
          dstIP = IP_String (IPFromUint32 (evt_Daddr evt));
          proto = ProtocolName (evt_Protocol evt);
          (srcIP, dstIP) = (if srcIP > dstIP then (dstIP, srcIP) else (srcIP, dstIP))
      in srcIP @ ''-'' @ dstIP @ ''-'' @ proto)"

subsection \<open>Processing one event\<close>

text \<open>
  The DNS part, before the lock is taken: the last query (the one the packet record
  shows), all queries, and how often each name is asked for.
\<close>

definition dns_question_step ::
    "time \<Rightarrow> string \<Rightarrow> DNSResponse \<Rightarrow> DNSQuery option \<times> DNSQuery list \<times> (string, u64) gmap \<Rightarrow>
     DNSQuestion \<Rightarrow> DNSQuery option \<times> DNSQuery list \<times> (string, u64) gmap" where
  "dns_question_step now direction resp = (\<lambda>(dnsQuery, dnsQueries, dnsQueryNames) q.
     let dq = \<lparr>dq_Timestamp = now, dq_Domain = q_Name q, dq_QueryType = GetQueryType (q_Type q),
               dq_IsResponse = resp_IsResponse resp,
               dq_ResponseCode = GetResponseCode (resp_ResponseCode resp), dq_Direction = direction\<rparr>
     in (Some dq, dnsQueries @ [dq], gmap_add dnsQueryNames (q_Name q) 1))"

definition parse_event_dns ::
    "time \<Rightarrow> string \<Rightarrow> PacketEvent \<Rightarrow> (DNSQuery option \<times> DNSQuery list \<times> (string, u64) gmap) go" where
  "parse_event_dns now direction evt =
     (if evt_Protocol evt = 17 \<and> evt_Dport evt = 53 \<and> length (evt_Payload evt) > 0 then
        gbind (ParseDNS (evt_Payload evt)) (\<lambda>dnsResp.
          case dnsResp of
            Some resp \<Rightarrow>
              (if length (resp_Questions resp) > 0
               then Inr (foldl (dns_question_step now direction resp) (None, [], []) (resp_Questions resp))
               else Inr (None, [], []))
          | None \<Rightarrow> Inr (None, [], []))
      else Inr (None, [], []))"

text \<open>The flow that the first packet of a conversation creates.\<close>

definition new_flow :: "time \<Rightarrow> PacketEvent \<Rightarrow> nat \<Rightarrow> Flow" where
  "new_flow now evt history =
     \<lparr>flow_SrcIP = IPFromUint32 (evt_Saddr evt), flow_DstIP = IPFromUint32 (evt_Daddr evt),
      flow_Protocol = ProtocolName (evt_Protocol evt), flow_SrcPorts = [], flow_DstPorts = [],
      flow_TopSrcPort = 0, flow_TopDstPort = 0, flow_PacketCount = 0, flow_ByteCount = 0,
      flow_LastPacketTime = zero_time, flow_FirstPacketTime = now,
      flow_ForwardPackets = 0, flow_ForwardBytes = 0, flow_ReversePackets = 0, flow_ReverseBytes = 0,
      flow_TCPFlags = 0, flow_TCPRetransmits = 0, flow_TCPOutOfOrder = 0, flow_State = ''new'',
      flow_PacketHistory = history, flow_StateChanges = [], flow_DNSQueries = [],
      flow_DNSQueryNames = [], flow_DNSFailures = 0, flow_DNSLastQuery = zero_time\<rparr>"

text \<open>Looking the flow up, or allocating its history and the flow and entering it in the map.\<close>

definition get_or_create ::
    "time \<Rightarrow> PacketEvent \<Rightarrow> FlowAggregator \<times> store \<Rightarrow> (nat \<times> FlowAggregator \<times> store) go" where
  "get_or_create now evt = (\<lambda>(fa, st).
     case map_of (fa_flows fa) (getFlowKey evt) of
       Some ref \<Rightarrow> Inr (ref, fa, st)
     | None \<Rightarrow>
         gbind (NewRingBuffer (fa_packetBufferSize fa)) (\<lambda>ring.
           let ref = length (st_flows st) in
           Inr (ref,
                fa\<lparr>fa_flows := AList.update (getFlowKey evt) ref (fa_flows fa)\<rparr>,
                st\<lparr>st_flows := st_flows st @ [new_flow now evt (length (st_rings st))],
                   st_rings := st_rings st @ [ring]\<rparr>)))"

definition is_forward :: "PacketEvent \<Rightarrow> Flow \<Rightarrow> bool" where
  "is_forward evt flow \<longleftrightarrow>
     evt_Saddr evt = IPToUint32 (flow_SrcIP flow) \<and> evt_Daddr evt = IPToUint32 (flow_DstIP flow)"

text \<open>Counters, direction, and ports.\<close>

definition update_counters :: "time \<Rightarrow> PacketEvent \<Rightarrow> bool \<Rightarrow> Flow \<Rightarrow> Flow" where
  "update_counters now evt isForward flow =
     (let flow = flow\<lparr>flow_LastPacketTime := now,
                      flow_PacketCount := flow_PacketCount flow + 1,
                      flow_ByteCount := flow_ByteCount flow + ucast (evt_Len evt)\<rparr>
      in if isForward
         then flow\<lparr>flow_ForwardPackets := flow_ForwardPackets flow + 1,
                   flow_ForwardBytes := flow_ForwardBytes flow + ucast (evt_Len evt)\<rparr>
         else flow\<lparr>flow_ReversePackets := flow_ReversePackets flow + 1,
                   flow_ReverseBytes := flow_ReverseBytes flow + ucast (evt_Len evt)\<rparr>)"

definition update_ports :: "PacketEvent \<Rightarrow> Flow \<Rightarrow> Flow" where
  "update_ports evt flow =
     (let src = gmap_add (flow_SrcPorts flow) (evt_Sport evt) 1;
          dst = gmap_add (flow_DstPorts flow) (evt_Dport evt) 1;
          topSrc = (if map_get src (evt_Sport evt) > map_get src (flow_TopSrcPort flow)
                    then evt_Sport evt else flow_TopSrcPort flow);
          topDst = (if map_get dst (evt_Dport evt) > map_get dst (flow_TopDstPort flow)
                    then evt_Dport evt else flow_TopDstPort flow)
      in flow\<lparr>flow_SrcPorts := src, flow_DstPorts := dst,
              flow_TopSrcPort := topSrc, flow_TopDstPort := topDst\<rparr>)"

definition dns_failed :: "DNSQuery \<Rightarrow> bool" where
  "dns_failed q \<longleftrightarrow> dq_IsResponse q \<and> dq_ResponseCode q \<noteq> ''NoError'' \<and> dq_ResponseCode q \<noteq> ''''"

definition update_dns :: "time \<Rightarrow> DNSQuery list \<Rightarrow> (string, u64) gmap \<Rightarrow> Flow \<Rightarrow> Flow" where
  "update_dns now dnsQueries dnsQueryNames flow =
     (if length dnsQueries > 0 then
        flow\<lparr>flow_DNSQueries := flow_DNSQueries flow @ dnsQueries,
             flow_DNSQueryNames :=
               foldl (\<lambda>m (domain, count). gmap_add m domain count) (flow_DNSQueryNames flow) dnsQueryNames,
             flow_DNSLastQuery := now,
             flow_DNSFailures := foldl (\<lambda>n q. if dns_failed q then n + 1 else n) (flow_DNSFailures flow) dnsQueries\<rparr>
      else flow)"

definition update_tcp :: "time \<Rightarrow> PacketEvent \<Rightarrow> Flow \<Rightarrow> Flow" where
  "update_tcp now evt flow =
     (if evt_Protocol evt = 6 then
        let oldState = flow_State flow;
            flow = flow\<lparr>flow_TCPFlags := evt_Protocol evt\<rparr>;
            flow = (if flow_PacketCount flow = 1 then flow\<lparr>flow_State := ''syn''\<rparr>
                    else if flow_PacketCount flow = 2 then flow\<lparr>flow_State := ''syn-ack''\<rparr>
                    else if flow_PacketCount flow \<ge> 3 then flow\<lparr>flow_State := ''established''\<rparr>
                    else flow)
        in if oldState \<noteq> flow_State flow \<and> length (flow_StateChanges flow) < 100 then
             flow\<lparr>flow_StateChanges := flow_StateChanges flow @
               [\<lparr>sc_Timestamp = now, sc_OldState = oldState, sc_NewState = flow_State flow,
                 sc_Description = oldState @ '' -> '' @ flow_State flow @ '' (packet '' @
                   dec (unat (flow_PacketCount flow)) @ '')''\<rparr>]\<rparr>
           else flow
      else flow)"

definition packet_record :: "time \<Rightarrow> PacketEvent \<Rightarrow> string \<Rightarrow> DNSQuery option \<Rightarrow> PacketRecord" where
  "packet_record now evt direction dnsQuery =
     \<lparr>rec_Timestamp = now, rec_SrcIP = IPFromUint32 (evt_Saddr evt), rec_SrcPort = evt_Sport evt,
      rec_DstIP = IPFromUint32 (evt_Daddr evt), rec_DstPort = evt_Dport evt, rec_Length = evt_Len evt,
      rec_Direction = direction, rec_TCPFlags = evt_Protocol evt, rec_DNSQuery = dnsQuery\<rparr>"

text \<open>Following a pointer; a dangling one is a nil dereference.\<close>

definition deref :: "'a list \<Rightarrow> nat \<Rightarrow> 'a go" where
  "deref xs r = (if r < length xs then Inr (xs ! r) else Inl NilDereference)"

lemma deref_ok [simp]: "r < length xs \<Longrightarrow> deref xs r = Inr (xs ! r)"
  by (simp add: deref_def)

definition processEvent ::
    "time \<Rightarrow> PacketEvent \<Rightarrow> FlowAggregator \<times> store \<Rightarrow> (FlowAggregator \<times> store) go" where
  "processEvent now evt = (\<lambda>(fa, st).
     gbind (parse_event_dns now ''forward'' evt) (\<lambda>(dnsQuery, dnsQueries, dnsQueryNames).
     let record = packet_record now evt ''forward'' dnsQuery;
         gs = fa_globalStats fa;
         fa = fa\<lparr>fa_globalStats := gs\<lparr>gs_TotalPackets := gs_TotalPackets gs + 1,
                                      gs_TotalBytes := gs_TotalBytes gs + ucast (evt_Len evt),
                                      gs_LastUpdated := now\<rparr>\<rparr>
     in
     gbind (get_or_create now evt (fa, st)) (\<lambda>(ref, fa, st).
     gbind (deref (st_flows st) ref) (\<lambda>flow.
     let isForward = is_forward evt flow;
         record = (if isForward then record else record\<lparr>rec_Direction := ''reverse''\<rparr>);
         flow = update_ports evt (update_counters now evt isForward flow)
     in
     gbind (deref (st_rings st) (flow_PacketHistory flow)) (\<lambda>ring.
     gbind (Add ring (Some record)) (\<lambda>ring'.
     let flow' = update_tcp now evt (update_dns now dnsQueries dnsQueryNames flow)
     in Inr (fa, st\<lparr>st_flows := (st_flows st)[ref := flow'],
                    st_rings := (st_rings st)[flow_PacketHistory flow := ring']\<rparr>)))))))"

subsection \<open>Idle flows\<close>

text \<open>The loop over the map: mark the idle flows closed and collect their keys.\<close>

fun idle_loop ::
    "time \<Rightarrow> duration \<Rightarrow> (string, nat) gmap \<Rightarrow> store \<Rightarrow> string list \<Rightarrow> (store \<times> string list) go" where
  "idle_loop now timeout [] st toDelete = Inr (st, toDelete)"
| "idle_loop now timeout ((key, ref) # rest) st toDelete =
     gbind (deref (st_flows st) ref) (\<lambda>flow.
       if time_Sub now (flow_LastPacketTime flow) > timeout
       then idle_loop now timeout rest
              (st\<lparr>st_flows := (st_flows st)[ref := flow\<lparr>flow_State := ''closed''\<rparr>]\<rparr>) (toDelete @ [key])
       else idle_loop now timeout rest st toDelete)"

definition closeIdleFlows ::
    "((string, nat) gmap \<Rightarrow> (string, nat) gmap) \<Rightarrow> time \<Rightarrow> FlowAggregator \<times> store \<Rightarrow>
     (FlowAggregator \<times> store) go" where
  "closeIdleFlows visit now = (\<lambda>(fa, st).
     gbind (idle_loop now (fa_flowTimeout fa) (visit (fa_flows fa)) st []) (\<lambda>(st', toDelete).
       Inr (fa\<lparr>fa_flows := foldl (\<lambda>m key. AList.delete key m) (fa_flows fa) toDelete\<rparr>, st')))"

text \<open>\<open>string(rune(u))\<close>: the UTF-8 encoding of a 16-bit code point (a surrogate becomes U+FFFD).\<close>

definition uint16ToString :: "u16 \<Rightarrow> string" where
  "uint16ToString u = (let n = unat u; c = (\<lambda>k. char_of k) in
     if n < 0x80 then [c n]
     else if n < 0x800 then [c (0xC0 + n div 64), c (0x80 + n mod 64)]
     else if 0xD800 \<le> n \<and> n < 0xE000 then [c 0xEF, c 0xBF, c 0xBD]
     else [c (0xE0 + n div 4096), c (0x80 + n div 64 mod 64), c (0x80 + n mod 64)])"

end
