(* ===== verification/FlowSpec.thy ===== *)
theory FlowSpec
  imports Aggregator
begin

text \<open>
  What a flow is, in closed form: the specification of a flow and its packet history in terms of the
  observations (clock reading and event) that were made for it, and the lemmas that one more
  processed packet takes a flow that meets the specification for a list of observations to one
  that meets it for the longer list. Counts stand modulo \<open>2 ^ 64\<close>, as the counters do.
\<close>

type_synonym obs = "time \<times> PacketEvent"

subsection \<open>Observations\<close>

definition forward :: "u32 \<Rightarrow> u32 \<Rightarrow> obs \<Rightarrow> bool" where
  "forward src dst o1 \<longleftrightarrow> evt_Saddr (snd o1) = src \<and> evt_Daddr (snd o1) = dst"

definition bytes_of :: "obs list \<Rightarrow> u64" where
  "bytes_of es = sum_list (map (\<lambda>o1. ucast (evt_Len (snd o1))) es)"

text \<open>How often a source or destination port occurs.\<close>

definition sport_count :: "obs list \<Rightarrow> u16 \<Rightarrow> nat" where
  "sport_count es p = length (filter (\<lambda>o1. evt_Sport (snd o1) = p) es)"

definition dport_count :: "obs list \<Rightarrow> u16 \<Rightarrow> nat" where
  "dport_count es p = length (filter (\<lambda>o1. evt_Dport (snd o1) = p) es)"

text \<open>The DNS queries of one observation.\<close>

definition query_of :: "time \<Rightarrow> DNSResponse \<Rightarrow> DNSQuestion \<Rightarrow> DNSQuery" where
  "query_of now resp q =
     \<lparr>dq_Timestamp = now, dq_Domain = q_Name q, dq_QueryType = GetQueryType (q_Type q),
      dq_IsResponse = resp_IsResponse resp,
      dq_ResponseCode = GetResponseCode (resp_ResponseCode resp), dq_Direction = ''forward''\<rparr>"

definition queries_of :: "obs \<Rightarrow> DNSQuery list" where
  "queries_of = (\<lambda>(now, evt).
     if evt_Protocol evt = 17 \<and> evt_Dport evt = 53 \<and> evt_Payload evt \<noteq> [] then
       (case ParseDNS (evt_Payload evt) of
          Inr (Some resp) \<Rightarrow> map (query_of now resp) (resp_Questions resp)
        | _ \<Rightarrow> [])
     else [])"

definition last_opt :: "'a list \<Rightarrow> 'a option" where
  "last_opt xs = (if xs = [] then None else Some (last xs))"

definition record_of :: "u32 \<Rightarrow> u32 \<Rightarrow> obs \<Rightarrow> PacketRecord" where
  "record_of src dst o1 =
     packet_record (fst o1) (snd o1) (if forward src dst o1 then ''forward'' else ''reverse'')
       (last_opt (queries_of o1))"

text \<open>The state the code gives a TCP flow after \<open>n\<close> packets, and its \<open>i\<close>-th state change.\<close>

definition tcp_state :: "nat \<Rightarrow> string" where
  "tcp_state n = (if n = 0 then ''new'' else if n = 1 then ''syn''
                  else if n = 2 then ''syn-ack'' else ''established'')"

definition state_change :: "time \<Rightarrow> nat \<Rightarrow> TCPStateChange" where
  "state_change t i =
     \<lparr>sc_Timestamp = t, sc_OldState = tcp_state i, sc_NewState = tcp_state (Suc i),
      sc_Description = tcp_state i @ '' -> '' @ tcp_state (Suc i) @ '' (packet '' @ dec (Suc i) @ '')''\<rparr>"

subsection \<open>The specification of a flow\<close>

definition counters_ok :: "u32 \<Rightarrow> u32 \<Rightarrow> Flow \<Rightarrow> obs list \<Rightarrow> bool" where
  "counters_ok src dst f es \<longleftrightarrow>
     flow_PacketCount f = of_nat (length es) \<and>
     flow_ByteCount f = bytes_of es \<and>
     flow_ForwardPackets f = of_nat (length (filter (forward src dst) es)) \<and>
     flow_ForwardBytes f = bytes_of (filter (forward src dst) es) \<and>
     flow_ReversePackets f = of_nat (length (filter (\<lambda>o1. \<not> forward src dst o1) es)) \<and>
     flow_ReverseBytes f = bytes_of (filter (\<lambda>o1. \<not> forward src dst o1) es) \<and>
     flow_LastPacketTime f = (if es = [] then zero_time else fst (last es))"

definition ports_ok :: "Flow \<Rightarrow> obs list \<Rightarrow> bool" where
  "ports_ok f es \<longleftrightarrow>
     wf_map (flow_SrcPorts f) \<and> wf_map (flow_DstPorts f) \<and>
     fst ` set (flow_SrcPorts f) = (\<lambda>o1. evt_Sport (snd o1)) ` set es \<and>
     fst ` set (flow_DstPorts f) = (\<lambda>o1. evt_Dport (snd o1)) ` set es \<and>
     (\<forall>p. map_get (flow_SrcPorts f) p = of_nat (sport_count es p)) \<and>
     (\<forall>p. map_get (flow_DstPorts f) p = of_nat (dport_count es p)) \<and>
     (length es < 2 ^ 64 \<longrightarrow>
        (\<forall>p. sport_count es p \<le> sport_count es (flow_TopSrcPort f)) \<and>
        (\<forall>p. dport_count es p \<le> dport_count es (flow_TopDstPort f)))"

definition dns_ok :: "Flow \<Rightarrow> obs list \<Rightarrow> bool" where
  "dns_ok f es \<longleftrightarrow>
     flow_DNSQueries f = concat (map queries_of es) \<and>
     (\<forall>d. map_get (flow_DNSQueryNames f) d =
          of_nat (count_list (map dq_Domain (concat (map queries_of es))) d)) \<and>
     flow_DNSFailures f = of_nat (length (filter dns_failed (concat (map queries_of es))))"

definition tcp_ok :: "Flow \<Rightarrow> obs list \<Rightarrow> bool" where
  "tcp_ok f es \<longleftrightarrow>
     (if flow_Protocol f = ''tcp'' then
        flow_TCPFlags f = (if es = [] then 0 else 6) \<and>
        (length es < 2 ^ 64 \<longrightarrow>
           flow_State f = tcp_state (length es) \<and>
           flow_StateChanges f = map (\<lambda>i. state_change (fst (es ! i)) i) [0..<min 3 (length es)])
      else flow_State f = ''new'' \<and> flow_StateChanges f = [] \<and> flow_TCPFlags f = 0)"

definition identity_ok :: "obs \<Rightarrow> Flow \<Rightarrow> bool" where
  "identity_ok o1 f \<longleftrightarrow>
     flow_SrcIP f = IPFromUint32 (evt_Saddr (snd o1)) \<and>
     flow_DstIP f = IPFromUint32 (evt_Daddr (snd o1)) \<and>
     flow_Protocol f = ProtocolName (evt_Protocol (snd o1)) \<and>
     flow_FirstPacketTime f = fst o1 \<and>
     flow_TCPRetransmits f = 0 \<and> flow_TCPOutOfOrder f = 0"

text \<open>A flow whose first observation is \<open>o1\<close> meets the specification for the observations \<open>es\<close>.\<close>

definition flow_ok :: "obs \<Rightarrow> Flow \<Rightarrow> obs list \<Rightarrow> bool" where
  "flow_ok o1 f es \<longleftrightarrow>
     identity_ok o1 f \<and> counters_ok (evt_Saddr (snd o1)) (evt_Daddr (snd o1)) f es \<and>
     ports_ok f es \<and> dns_ok f es \<and> tcp_ok f es"

definition history_ok :: "nat \<Rightarrow> obs \<Rightarrow> PacketRecord ring_buffer \<Rightarrow> obs list \<Rightarrow> bool" where
  "history_ok cap o1 rb es \<longleftrightarrow>
     ring_inv rb \<and> rb_capacity rb = cap \<and>
     ring_slots rb = map Some (lastn cap (map (record_of (evt_Saddr (snd o1)) (evt_Daddr (snd o1))) es))"

subsection \<open>The DNS part of an event\<close>

lemma foldl_dns_question_step:
  "foldl (dns_question_step now ''forward'' resp) (lq, qs, names) questions =
     (if questions = [] then lq else Some (query_of now resp (last questions)),
      qs @ map (query_of now resp) questions,
      foldl (\<lambda>m q. gmap_add m (q_Name q) 1) names questions)"
proof (induction questions arbitrary: lq qs names)
  case (Cons q questions)
  then show ?case
    by (simp add: dns_question_step_def query_of_def Let_def)
qed simp

lemma foldl_gmap_add_count:
  fixes m :: "('k, u64) gmap"
  assumes "wf_map m"
  shows "wf_map (foldl (\<lambda>m x. gmap_add m (f x) 1) m xs) \<and>
    map_get (foldl (\<lambda>m x. gmap_add m (f x) 1) m xs) k = map_get m k + of_nat (count_list (map f xs) k)"
  using assms
proof (induction xs arbitrary: m)
  case (Cons x xs)
  from Cons.IH [of "gmap_add m (f x) 1"] Cons.prems show ?case
    by (simp add: map_get_add add.assoc)
qed simp

lemma foldl_gmap_add_get:
  fixes m :: "('k, u64) gmap"
  assumes "wf_map names"
  shows "map_get (foldl (\<lambda>m (d, c). gmap_add m d c) m names) k = map_get m k + map_get names k"
  using assms
proof (induction names arbitrary: m)
  case (Cons p names)
  obtain d c where p: "p = (d, c)" by (cases p)
  from Cons.prems have wf: "wf_map names" and new: "d \<notin> fst ` set names"
    by (simp_all add: p wf_map_def)
  from new have "map_of names d = None" by (simp add: map_of_eq_None_iff)
  then have "map_get names d = 0" by (simp add: map_get_def)
  then show ?case
    using Cons.IH [OF wf, of "gmap_add m d c"]
    by (auto simp: p map_get_add map_get_def [of "(d, c) # names"] map_get_def [of names] add.assoc)
qed simp

lemma parse_event_dns_queries:
  "\<exists>names. parse_event_dns now ''forward'' evt =
       Inr (last_opt (queries_of (now, evt)), queries_of (now, evt), names) \<and> wf_map names \<and>
     (\<forall>d. map_get names d = of_nat (count_list (map dq_Domain (queries_of (now, evt))) d))"
proof (cases "evt_Protocol evt = 17 \<and> evt_Dport evt = 53 \<and> evt_Payload evt \<noteq> []")
  case True
  obtain r where r: "ParseDNS (evt_Payload evt) = Inr r" using ParseDNS_ok by blast
  show ?thesis
  proof (cases "\<exists>resp. r = Some resp \<and> resp_Questions resp \<noteq> []")
    case some: True
    then obtain resp where resp: "r = Some resp" "resp_Questions resp \<noteq> []" by blast
    have q: "queries_of (now, evt) = map (query_of now resp) (resp_Questions resp)"
      using True r resp by (simp add: queries_of_def)
    have dom: "map dq_Domain (queries_of (now, evt)) = map q_Name (resp_Questions resp)"
      by (simp add: q query_of_def)
    have "parse_event_dns now ''forward'' evt =
        Inr (last_opt (queries_of (now, evt)), queries_of (now, evt),
             foldl (\<lambda>m q. gmap_add m (q_Name q) 1) [] (resp_Questions resp))"
      using True r resp by (simp add: parse_event_dns_def foldl_dns_question_step last_opt_def last_map q)
    then show ?thesis
      using foldl_gmap_add_count [of "[]" q_Name "resp_Questions resp"] by (simp add: dom)
  next
    case False
    then have "queries_of (now, evt) = []"
      using True r by (cases r) (auto simp: queries_of_def)
    then show ?thesis
      using True r False by (cases r) (auto simp: parse_event_dns_def last_opt_def)
  qed
next
  case False
  then have "queries_of (now, evt) = []" by (auto simp: queries_of_def)
  with False show ?thesis by (auto simp: parse_event_dns_def last_opt_def)
qed

lemma queries_of_no_payload: "evt_Payload evt = [] \<Longrightarrow> queries_of (now, evt) = []"
  by (simp add: queries_of_def)

lemma queries_of_direction: "q \<in> set (queries_of o1) \<Longrightarrow> dq_Direction q = ''forward''"
proof -
  assume "q \<in> set (queries_of o1)"
  moreover have "\<exists>now resp qs. queries_of o1 = map (query_of now resp) qs"
    by (auto simp: queries_of_def split: prod.split sum.split option.split)
  ultimately show ?thesis by (auto simp: query_of_def)
qed

lemma foldl_count_filter: "foldl (\<lambda>n q. if P q then n + 1 else n) (n :: 'a::semiring_1) qs = n + of_nat (length (filter P qs))"
  by (induction qs arbitrary: n) (simp_all add: add.assoc)

subsection \<open>One more packet: counters and ports\<close>

lemma bytes_of_snoc [simp]: "bytes_of (es @ [o1]) = bytes_of es + ucast (evt_Len (snd o1))"
  by (simp add: bytes_of_def)

lemma bytes_of_Nil [simp]: "bytes_of [] = 0"
  by (simp add: bytes_of_def)

lemma of_nat_Suc_u64: "(of_nat (Suc n) :: u64) = of_nat n + 1"
  by (simp add: add.commute)

lemma counters_step:
  assumes "counters_ok src dst f es" and "fwd = forward src dst (t, e)"
  shows "counters_ok src dst (update_counters t e fwd f) (es @ [(t, e)])"
  using assms by (auto simp: counters_ok_def update_counters_def Let_def of_nat_Suc_u64 simp del: of_nat_Suc)

lemma sport_count_snoc: "sport_count (es @ [o1]) p = (if p = evt_Sport (snd o1) then sport_count es p + 1 else sport_count es p)"
  by (simp add: sport_count_def)

lemma dport_count_snoc: "dport_count (es @ [o1]) p = (if p = evt_Dport (snd o1) then dport_count es p + 1 else dport_count es p)"
  by (simp add: dport_count_def)

lemma port_counts_le: "sport_count es p \<le> length es" "dport_count es p \<le> length es"
  by (simp_all add: sport_count_def dport_count_def)

lemma unat_of_nat_u64: "n < 2 ^ 64 \<Longrightarrow> unat (of_nat n :: u64) = n"
  by (simp add: unat_of_nat)

text \<open>The comparison in the code keeps the top port a port of maximal count.\<close>

lemma top_port_step:
  fixes m :: "(u16, u64) gmap"
  assumes get: "\<forall>p. map_get m p = of_nat (c p)" and top: "\<forall>p. c p \<le> c tp"
    and step: "\<forall>p. c' p = (if p = s then c p + 1 else c p)" and bound: "\<forall>p. c' p < 2 ^ 64"
  shows "c' p \<le> c' (if map_get (gmap_add m s 1) s > map_get (gmap_add m s 1) tp then s else tp)"
proof -
  have get': "map_get (gmap_add m s 1) q = of_nat (c' q)" for q
    using get step by (simp add: map_get_add)
  have less: "(of_nat (c' a) < (of_nat (c' b) :: u64)) = (c' a < c' b)" for a b
    using bound by (simp add: word_less_nat_alt unat_of_nat_u64 del: of_nat_add)
  have p: "c p \<le> c tp" "c s \<le> c tp" using top by auto
  show ?thesis
    unfolding get' less using p step by auto
qed

lemma ports_step:
  assumes "ports_ok f es"
  shows "ports_ok (update_ports e f) (es @ [(t, e)])"
proof -
  have p: "wf_map (flow_SrcPorts f)" "wf_map (flow_DstPorts f)"
    "fst ` set (flow_SrcPorts f) = (\<lambda>o1. evt_Sport (snd o1)) ` set es"
    "fst ` set (flow_DstPorts f) = (\<lambda>o1. evt_Dport (snd o1)) ` set es"
    "\<forall>p. map_get (flow_SrcPorts f) p = of_nat (sport_count es p)"
    "\<forall>p. map_get (flow_DstPorts f) p = of_nat (dport_count es p)"
    using assms by (simp_all add: ports_ok_def)
  have top: "(\<forall>p. sport_count (es @ [(t, e)]) p \<le> sport_count (es @ [(t, e)]) (flow_TopSrcPort (update_ports e f))) \<and>
      (\<forall>p. dport_count (es @ [(t, e)]) p \<le> dport_count (es @ [(t, e)]) (flow_TopDstPort (update_ports e f)))"
    if len: "length (es @ [(t, e)]) < 2 ^ 64"
  proof -
    from len assms have tops: "\<forall>p. sport_count es p \<le> sport_count es (flow_TopSrcPort f)"
      "\<forall>p. dport_count es p \<le> dport_count es (flow_TopDstPort f)"
      by (simp_all add: ports_ok_def)
    have b: "sport_count (es @ [(t, e)]) p < 2 ^ 64" "dport_count (es @ [(t, e)]) p < 2 ^ 64" for p
      using port_counts_le [of "es @ [(t, e)]" p] len by linarith+
    show ?thesis
      using top_port_step [OF p(5) tops(1), of "sport_count (es @ [(t, e)])" "evt_Sport e"]
        top_port_step [OF p(6) tops(2), of "dport_count (es @ [(t, e)])" "evt_Dport e"] b
      by (simp add: update_ports_def Let_def sport_count_snoc dport_count_snoc)
  qed
  show ?thesis
    unfolding ports_ok_def using p top
    by (auto simp: update_ports_def Let_def keys_map_add map_get_add sport_count_snoc dport_count_snoc)
qed

subsection \<open>One more packet: DNS and TCP\<close>

lemma dns_step:
  assumes ok: "dns_ok f es" and wf: "wf_map names"
    and names: "\<forall>d. map_get names d = of_nat (count_list (map dq_Domain (queries_of (t, e))) d)"
  shows "dns_ok (update_dns t (queries_of (t, e)) names f) (es @ [(t, e)])"
proof (cases "queries_of (t, e) = []")
  case False
  then show ?thesis
    using ok foldl_gmap_add_get [OF wf] names
    by (simp add: dns_ok_def update_dns_def foldl_count_filter split_def)
qed (use ok in \<open>simp add: dns_ok_def update_dns_def\<close>)

lemma tcp_state_neq: "tcp_state n \<noteq> tcp_state (Suc n) \<longleftrightarrow> n < 3"
  by (auto simp: tcp_state_def)

lemma update_tcp_count:
  assumes tcp: "evt_Protocol e = 6" and n: "unat (flow_PacketCount f) = Suc n"
    and st: "flow_State f = tcp_state n" and len: "length (flow_StateChanges f) < 100"
  shows "update_tcp t e f = f\<lparr>flow_TCPFlags := 6, flow_State := tcp_state (Suc n),
           flow_StateChanges := flow_StateChanges f @ (if n < 3 then [state_change t n] else [])\<rparr>"
proof -
  consider "n = 0" | "n = 1" | "n = 2" | "3 \<le> n" by linarith
  then show ?thesis
  proof cases
    case 1
    then have "flow_PacketCount f = 1" using n by (simp add: word_unat_eq_iff)
    then show ?thesis
      using 1 tcp st len by (simp add: update_tcp_def Let_def tcp_state_def state_change_def)
  next
    case 2
    then have "flow_PacketCount f = 2" using n by (simp add: word_unat_eq_iff)
    then show ?thesis
      using 2 tcp st len by (simp add: update_tcp_def Let_def tcp_state_def state_change_def)
  next
    case 3
    then have "flow_PacketCount f = 3" using n by (simp add: word_unat_eq_iff)
    then show ?thesis
      using 3 tcp st len by (simp add: update_tcp_def Let_def tcp_state_def state_change_def)
  next
    case 4
    then have "flow_PacketCount f \<noteq> 1" "flow_PacketCount f \<noteq> 2" "3 \<le> flow_PacketCount f"
      using n by (auto simp: word_le_nat_alt)
    then show ?thesis
      using 4 tcp st by (simp add: update_tcp_def Let_def tcp_state_def)
  qed
qed

lemma tcp_step:
  assumes proto: "flow_Protocol f = ProtocolName (evt_Protocol e)"
    and count: "flow_PacketCount f = of_nat (Suc (length es))" and ok: "tcp_ok f es"
  shows "tcp_ok (update_tcp t e f) (es @ [(t, e)])"
proof (cases "evt_Protocol e = 6")
  case False
  then show ?thesis using ok proto by (simp add: tcp_ok_def update_tcp_def)
next
  case True
  then have tcp: "flow_Protocol f = ''tcp''" using proto by simp
  let ?n = "length es" and ?f = "update_tcp t e f"
  have fixed: "flow_Protocol ?f = ''tcp''" "flow_TCPFlags ?f = 6"
    using tcp True by (simp_all add: update_tcp_def Let_def)
  have "flow_State ?f = tcp_state (Suc ?n) \<and>
      flow_StateChanges ?f = map (\<lambda>i. state_change (fst ((es @ [(t, e)]) ! i)) i) [0..<min 3 (Suc ?n)]"
    if n: "Suc ?n < 2 ^ 64"
  proof -
    from ok tcp n have st: "flow_State f = tcp_state ?n"
      "flow_StateChanges f = map (\<lambda>i. state_change (fst (es ! i)) i) [0..<min 3 ?n]"
      by (simp_all add: tcp_ok_def)
    have u: "unat (flow_PacketCount f) = Suc ?n"
      using n unfolding count by (rule unat_of_nat_u64)
    have old: "map (\<lambda>i. state_change (fst ((es @ [(t, e)]) ! i)) i) [0..<min 3 ?n] = flow_StateChanges f"
      unfolding st(2) by (intro map_cong) (auto simp: nth_append)
    have "map (\<lambda>i. state_change (fst ((es @ [(t, e)]) ! i)) i) [0..<min 3 (Suc ?n)] =
        flow_StateChanges f @ (if ?n < 3 then [state_change t ?n] else [])"
    proof (cases "?n < 3")
      case True
      then have "min 3 (Suc ?n) = Suc ?n" "min 3 ?n = ?n" by linarith+
      then show ?thesis unfolding old [symmetric] using True by simp
    next
      case False
      then have "min 3 (Suc ?n) = 3" "min 3 ?n = 3" by linarith+
      then show ?thesis using old False by simp
    qed
    then show ?thesis
      using update_tcp_count [OF True u st(1), of t] st(2) by simp
  qed
  with fixed show ?thesis by (simp add: tcp_ok_def)
qed

subsection \<open>One more packet: the whole flow and its history\<close>

text \<open>The flow after processing: counters, ports, DNS, TCP, in the order of the code.\<close>

definition step_flow :: "obs \<Rightarrow> (string, u64) gmap \<Rightarrow> Flow \<Rightarrow> Flow" where
  "step_flow o1 names f =
     update_tcp (fst o1) (snd o1) (update_dns (fst o1) (queries_of o1) names
       (update_ports (snd o1) (update_counters (fst o1) (snd o1) (is_forward (snd o1) f) f)))"

lemma is_forward_identity:
  "identity_ok o0 f \<Longrightarrow> is_forward e f = forward (evt_Saddr (snd o0)) (evt_Daddr (snd o0)) (t, e)"
  by (simp add: is_forward_def identity_ok_def forward_def)

lemma update_counters_frame [simp]:
  "flow_SrcIP (update_counters t e b f) = flow_SrcIP f"
  "flow_DstIP (update_counters t e b f) = flow_DstIP f"
  "flow_Protocol (update_counters t e b f) = flow_Protocol f"
  "flow_FirstPacketTime (update_counters t e b f) = flow_FirstPacketTime f"
  "flow_TCPRetransmits (update_counters t e b f) = flow_TCPRetransmits f"
  "flow_TCPOutOfOrder (update_counters t e b f) = flow_TCPOutOfOrder f"
  "flow_TCPFlags (update_counters t e b f) = flow_TCPFlags f"
  "flow_State (update_counters t e b f) = flow_State f"
  "flow_StateChanges (update_counters t e b f) = flow_StateChanges f"
  "flow_PacketHistory (update_counters t e b f) = flow_PacketHistory f"
  "flow_SrcPorts (update_counters t e b f) = flow_SrcPorts f"
  "flow_DstPorts (update_counters t e b f) = flow_DstPorts f"
  "flow_TopSrcPort (update_counters t e b f) = flow_TopSrcPort f"
  "flow_TopDstPort (update_counters t e b f) = flow_TopDstPort f"
  "flow_DNSQueries (update_counters t e b f) = flow_DNSQueries f"
  "flow_DNSQueryNames (update_counters t e b f) = flow_DNSQueryNames f"
  "flow_DNSFailures (update_counters t e b f) = flow_DNSFailures f"
  by (simp_all add: update_counters_def Let_def)

lemma ok_update_counters [simp]:
  "identity_ok o1 (update_counters t e b f) = identity_ok o1 f"
  "ports_ok (update_counters t e b f) es = ports_ok f es"
  "dns_ok (update_counters t e b f) es = dns_ok f es"
  "tcp_ok (update_counters t e b f) es = tcp_ok f es"
  by (simp_all add: identity_ok_def ports_ok_def dns_ok_def tcp_ok_def)

lemma ok_update_ports [simp]:
  "identity_ok o1 (update_ports e f) = identity_ok o1 f"
  "counters_ok src dst (update_ports e f) es = counters_ok src dst f es"
  "dns_ok (update_ports e f) es = dns_ok f es"
  "tcp_ok (update_ports e f) es = tcp_ok f es"
  "flow_PacketHistory (update_ports e f) = flow_PacketHistory f"
  "flow_PacketCount (update_ports e f) = flow_PacketCount f"
  "flow_Protocol (update_ports e f) = flow_Protocol f"
  by (simp_all add: identity_ok_def counters_ok_def dns_ok_def tcp_ok_def update_ports_def Let_def)

lemma ok_update_dns [simp]:
  "identity_ok o1 (update_dns t qs names f) = identity_ok o1 f"
  "counters_ok src dst (update_dns t qs names f) es = counters_ok src dst f es"
  "ports_ok (update_dns t qs names f) es = ports_ok f es"
  "tcp_ok (update_dns t qs names f) es = tcp_ok f es"
  "flow_PacketHistory (update_dns t qs names f) = flow_PacketHistory f"
  "flow_PacketCount (update_dns t qs names f) = flow_PacketCount f"
  "flow_Protocol (update_dns t qs names f) = flow_Protocol f"
  by (simp_all add: identity_ok_def counters_ok_def ports_ok_def tcp_ok_def update_dns_def)

lemma ok_update_tcp [simp]:
  "identity_ok o1 (update_tcp t e f) = identity_ok o1 f"
  "counters_ok src dst (update_tcp t e f) es = counters_ok src dst f es"
  "ports_ok (update_tcp t e f) es = ports_ok f es"
  "dns_ok (update_tcp t e f) es = dns_ok f es"
  "flow_PacketHistory (update_tcp t e f) = flow_PacketHistory f"
  by (simp_all add: identity_ok_def counters_ok_def ports_ok_def dns_ok_def update_tcp_def Let_def)

lemma flow_step:
  assumes ok: "flow_ok o0 f es" and proto: "ProtocolName (evt_Protocol (snd o0)) = ProtocolName (evt_Protocol e)"
    and wf: "wf_map names"
    and names: "\<forall>d. map_get names d = of_nat (count_list (map dq_Domain (queries_of (t, e))) d)"
  shows "flow_ok o0 (step_flow (t, e) names f) (es @ [(t, e)]) \<and>
     flow_PacketHistory (step_flow (t, e) names f) = flow_PacketHistory f"
proof -
  let ?b = "is_forward e f"
  let ?f1 = "update_counters t e ?b f"
  let ?f3 = "update_dns t (queries_of (t, e)) names (update_ports e ?f1)"
  have id: "identity_ok o0 f" and oks: "counters_ok (evt_Saddr (snd o0)) (evt_Daddr (snd o0)) f es"
    "ports_ok f es" "dns_ok f es" "tcp_ok f es"
    using ok by (simp_all add: flow_ok_def)
  have c: "counters_ok (evt_Saddr (snd o0)) (evt_Daddr (snd o0)) ?f1 (es @ [(t, e)])"
    by (rule counters_step [OF oks(1) is_forward_identity [OF id]])
  have d: "dns_ok ?f3 (es @ [(t, e)])"
    by (rule dns_step [OF _ wf names]) (simp add: oks)
  have p: "ports_ok (update_ports e ?f1) (es @ [(t, e)])"
    by (rule ports_step) (simp add: oks)
  have "flow_Protocol f = ProtocolName (evt_Protocol e)"
    using id proto by (simp add: identity_ok_def)
  moreover have "flow_PacketCount ?f1 = of_nat (Suc (length es))"
    using c by (simp add: counters_ok_def)
  ultimately have "tcp_ok (update_tcp t e ?f3) (es @ [(t, e)])"
    by (intro tcp_step) (simp_all add: oks)
  then show ?thesis
    using id c d p by (simp add: flow_ok_def step_flow_def)
qed

lemma new_flow_ok: "flow_ok (t, e) (new_flow t e ph) [] \<and> flow_PacketHistory (new_flow t e ph) = ph"
  by (simp add: flow_ok_def identity_ok_def counters_ok_def ports_ok_def dns_ok_def tcp_ok_def
      new_flow_def sport_count_def dport_count_def tcp_state_def)

lemma history_step:
  assumes "history_ok cap o0 rb es"
  shows "\<exists>rb'. Add rb (Some (record_of (evt_Saddr (snd o0)) (evt_Daddr (snd o0)) o1)) = Inr rb' \<and>
           history_ok cap o0 rb' (es @ [o1])"
  using ring.add_ok [of rb "Some (record_of (evt_Saddr (snd o0)) (evt_Daddr (snd o0)) o1)"] assms
  by (auto simp: history_ok_def simp flip: lastn_map)

lemma new_history_ok: "NewRingBuffer cap = Inr rb \<Longrightarrow> 0 < cap \<Longrightarrow> history_ok (nat cap) o0 rb []"
  by (simp add: history_ok_def ring_invI_new ring_slots_new ring_capacity_new)

end
