(* ===== verification/AggregatorProps.thy ===== *)
theory AggregatorProps
  imports FlowSpec
begin

text \<open>
  The aggregator refines a grouping: after any sequence of events and idle sweeps its map and store
  hold, for every conversation, exactly the flow that the observations since the conversation
  was last swept away determine. The lemmas show that each operation preserves the simulation
  relation; the properties are read off it.
\<close>

subsection \<open>Flow keys\<close>

lemma getFlowKey_text:
  "getFlowKey e = (let s = ip_text (evt_Saddr e); d = ip_text (evt_Daddr e) in
     (if s > d then d else s) @ CHR ''-'' # (if s > d then s else d) @ CHR ''-'' # ProtocolName (evt_Protocol e))"
  by (simp add: getFlowKey_def Let_def ip_text_def)

lemma getFlowKey_eq_iff:
  "getFlowKey e1 = getFlowKey e2 \<longleftrightarrow>
     ProtocolName (evt_Protocol e1) = ProtocolName (evt_Protocol e2) \<and>
     ((evt_Saddr e1 = evt_Saddr e2 \<and> evt_Daddr e1 = evt_Daddr e2) \<or>
      (evt_Saddr e1 = evt_Daddr e2 \<and> evt_Daddr e1 = evt_Saddr e2))"
proof -
  have sep: "CHR ''-'' \<notin> set (if ip_text a > ip_text b then ip_text b else ip_text a)"
    "CHR ''-'' \<notin> set (if ip_text a > ip_text b then ip_text a else ip_text b)" for a b
    by simp_all
  show ?thesis
    unfolding getFlowKey_text Let_def append_sep_inject [OF sep(1) sep(1)] append_sep_inject [OF sep(2) sep(2)]
    by (auto split: if_splits dest: order.asym)
qed

subsection \<open>Operations and their specification\<close>

text \<open>An event, or an idle sweep with the order in which it visits the map.\<close>

datatype agg_op = Event time PacketEvent | Idle "(string, nat) gmap \<Rightarrow> (string, nat) gmap" time

fun agg_step :: "FlowAggregator \<times> store \<Rightarrow> agg_op \<Rightarrow> (FlowAggregator \<times> store) go" where
  "agg_step s (Event now evt) = processEvent now evt s"
| "agg_step s (Idle visit now) = closeIdleFlows visit now s"

fun op_ok :: "agg_op \<Rightarrow> bool" where
  "op_ok (Event now evt) \<longleftrightarrow> True"
| "op_ok (Idle visit now) \<longleftrightarrow> range_order visit"

text \<open>The abstract state: the observations of each live conversation.\<close>

type_synonym groups = "string \<rightharpoonup> obs list"

definition group_add :: "obs \<Rightarrow> groups \<Rightarrow> groups" where
  "group_add o1 m = m(getFlowKey (snd o1) \<mapsto> (case m (getFlowKey (snd o1)) of None \<Rightarrow> [] | Some es \<Rightarrow> es) @ [o1])"

definition group_sweep :: "duration \<Rightarrow> time \<Rightarrow> groups \<Rightarrow> groups" where
  "group_sweep timeout now m = (\<lambda>k. case m k of None \<Rightarrow> None
     | Some es \<Rightarrow> if time_Sub now (fst (last es)) > timeout then None else Some es)"

fun group_step :: "duration \<Rightarrow> groups \<Rightarrow> agg_op \<Rightarrow> groups" where
  "group_step timeout m (Event now evt) = group_add (now, evt) m"
| "group_step timeout m (Idle visit now) = group_sweep timeout now m"

subsection \<open>The simulation relation\<close>

definition entry_ok :: "int \<Rightarrow> store \<Rightarrow> string \<Rightarrow> nat \<Rightarrow> obs list \<Rightarrow> bool" where
  "entry_ok bsz st k ref es \<longleftrightarrow>
     es \<noteq> [] \<and> (\<forall>o1 \<in> set es. getFlowKey (snd o1) = k) \<and>
     ref < length (st_flows st) \<and> flow_PacketHistory (st_flows st ! ref) < length (st_rings st) \<and>
     flow_ok (hd es) (st_flows st ! ref) es \<and>
     history_ok (nat bsz) (hd es) (st_rings st ! flow_PacketHistory (st_flows st ! ref)) es"

definition history_ref :: "store \<Rightarrow> nat \<Rightarrow> nat" where
  "history_ref st ref = flow_PacketHistory (st_flows st ! ref)"

text \<open>Distinct conversations have distinct histories, and hence distinct flows.\<close>

definition unshared :: "FlowAggregator \<Rightarrow> store \<Rightarrow> bool" where
  "unshared fa st \<longleftrightarrow> (\<forall>k k' r r'. map_of (fa_flows fa) k = Some r \<longrightarrow> map_of (fa_flows fa) k' = Some r' \<longrightarrow>
     history_ref st r = history_ref st r' \<longrightarrow> k = k')"

definition sim :: "groups \<Rightarrow> FlowAggregator \<times> store \<Rightarrow> bool" where
  "sim m = (\<lambda>(fa, st).
     wf_map (fa_flows fa) \<and> 0 < fa_packetBufferSize fa \<and> unshared fa st \<and>
     dom (map_of (fa_flows fa)) = dom m \<and>
     (\<forall>k ref. map_of (fa_flows fa) k = Some ref \<longrightarrow>
        entry_ok (fa_packetBufferSize fa) st k ref (the (m k))))"

lemma simD:
  assumes "sim m (fa, st)" and "map_of (fa_flows fa) k = Some ref"
  shows "\<exists>es. m k = Some es \<and> entry_ok (fa_packetBufferSize fa) st k ref es"
proof -
  have "k \<in> dom m" using assms by (auto simp: sim_def)
  then obtain es where "m k = Some es" by blast
  moreover have "entry_ok (fa_packetBufferSize fa) st k ref (the (m k))"
    using assms by (simp add: sim_def)
  ultimately show ?thesis by simp
qed

lemma sim_new: "sim Map.empty (NewFlowAggregator now timeout bsz, \<lparr>st_flows = [], st_rings = []\<rparr>)"
  by (simp add: sim_def NewFlowAggregator_def unshared_def Let_def)

text \<open>A store that grows keeps every entry.\<close>

lemma entry_ok_grow:
  assumes "entry_ok bsz st k ref es"
  shows "entry_ok bsz (st\<lparr>st_flows := st_flows st @ fs, st_rings := st_rings st @ rs\<rparr>) k ref es"
  using assms by (simp add: entry_ok_def nth_append)

text \<open>Writing another flow and another history keeps an entry.\<close>

lemma entry_ok_other:
  assumes "entry_ok bsz st k ref es" and "ref' \<noteq> ref" and "h \<noteq> history_ref st ref"
  shows "entry_ok bsz (st\<lparr>st_flows := (st_flows st)[ref' := f], st_rings := (st_rings st)[h := rb]\<rparr>) k ref es"
  using assms by (simp add: entry_ok_def history_ref_def)

subsection \<open>Processing an event\<close>

text \<open>
  After the look-up the current conversation has a flow that meets the specification for the
  observations before the current one (none, if it was just created), and the other
  conversations are untouched.
\<close>

definition pending :: "groups \<Rightarrow> obs \<Rightarrow> nat \<Rightarrow> FlowAggregator \<Rightarrow> store \<Rightarrow> bool" where
  "pending m o1 ref fa st \<longleftrightarrow>
     (let k = getFlowKey (snd o1); es = (case m k of None \<Rightarrow> [] | Some es \<Rightarrow> es); o0 = hd (es @ [o1]) in
      wf_map (fa_flows fa) \<and> 0 < fa_packetBufferSize fa \<and> unshared fa st \<and>
      dom (map_of (fa_flows fa)) = insert k (dom m) \<and> map_of (fa_flows fa) k = Some ref \<and>
      (\<forall>o2 \<in> set es. getFlowKey (snd o2) = k) \<and>
      ref < length (st_flows st) \<and> history_ref st ref < length (st_rings st) \<and>
      flow_ok o0 (st_flows st ! ref) es \<and>
      history_ok (nat (fa_packetBufferSize fa)) o0 (st_rings st ! history_ref st ref) es \<and>
      (\<forall>k' ref'. k' \<noteq> k \<longrightarrow> map_of (fa_flows fa) k' = Some ref' \<longrightarrow>
         entry_ok (fa_packetBufferSize fa) st k' ref' (the (m k'))))"

lemma get_or_create_existing:
  assumes sim: "sim m (fa, st)" and found: "map_of (fa_flows fa) (getFlowKey e) = Some ref"
  shows "get_or_create t e (fa, st) = Inr (ref, fa, st) \<and> pending m (t, e) ref fa st"
proof -
  from simD [OF sim found] obtain es where es: "m (getFlowKey e) = Some es"
    "entry_ok (fa_packetBufferSize fa) st (getFlowKey e) ref es" by blast
  then have hd: "hd (es @ [(t, e)]) = hd es" by (simp add: entry_ok_def)
  have ins: "insert (getFlowKey e) (dom m) = dom m" using es(1) by blast
  have "sim m (fa, st)" by (rule sim)
  then have "pending m (t, e) ref fa st"
    using es found unfolding pending_def sim_def Let_def
    by (simp add: hd ins) (simp add: entry_ok_def history_ref_def)
  then show ?thesis using found by (simp add: get_or_create_def)
qed

lemma get_or_create_new:
  assumes sim: "sim m (fa, st)" and none: "map_of (fa_flows fa) (getFlowKey e) = None"
  shows "\<exists>fa' st'. get_or_create t e (fa, st) = Inr (length (st_flows st), fa', st') \<and>
           pending m (t, e) (length (st_flows st)) fa' st' \<and>
           fa_packetBufferSize fa' = fa_packetBufferSize fa \<and> fa_globalStats fa' = fa_globalStats fa \<and>
           fa_flowTimeout fa' = fa_flowTimeout fa"
proof -
  let ?k = "getFlowKey e" and ?ref = "length (st_flows st)" and ?h = "length (st_rings st)"
  have size: "0 < fa_packetBufferSize fa" and wf: "wf_map (fa_flows fa)" and un: "unshared fa st"
    and dom: "dom (map_of (fa_flows fa)) = dom m"
    using sim by (simp_all add: sim_def)
  obtain rb where rb: "NewRingBuffer (fa_packetBufferSize fa) = (Inr rb :: PacketRecord ring_buffer go)"
    using size by (simp add: NewRingBuffer_def)
  let ?fa = "fa\<lparr>fa_flows := AList.update ?k ?ref (fa_flows fa)\<rparr>"
  let ?st = "st\<lparr>st_flows := st_flows st @ [new_flow t e ?h], st_rings := st_rings st @ [rb]\<rparr>"
  have mk: "m ?k = None" using none dom by (metis domIff)
  have entries: "entry_ok (fa_packetBufferSize fa) ?st k r (the (m k))"
    if "map_of (fa_flows fa) k = Some r" for k r
    using simD [OF sim that] entry_ok_grow by auto
  have old: "r < ?ref \<and> history_ref ?st r = history_ref st r \<and> history_ref st r < ?h"
    if "map_of (fa_flows fa) k = Some r" for k r
    using simD [OF sim that] by (auto simp: entry_ok_def history_ref_def nth_append)
  have new: "history_ref ?st ?ref = ?h" by (simp add: history_ref_def new_flow_def)
  have "unshared ?fa ?st"
    unfolding unshared_def
  proof (intro allI impI)
    fix k k' r r'
    assume a: "map_of (fa_flows ?fa) k = Some r" "map_of (fa_flows ?fa) k' = Some r'"
      "history_ref ?st r = history_ref ?st r'"
    show "k = k'"
    proof (cases "k = ?k"; cases "k' = ?k")
      assume "k = ?k" "k' \<noteq> ?k"
      then have "r = ?ref" "map_of (fa_flows fa) k' = Some r'" using a by (simp_all add: update_conv')
      then show ?thesis using a(3) new old by force
    next
      assume "k \<noteq> ?k" "k' = ?k"
      then have "r' = ?ref" "map_of (fa_flows fa) k = Some r" using a by (simp_all add: update_conv')
      then show ?thesis using a(3) new old by force
    next
      assume "k \<noteq> ?k" "k' \<noteq> ?k"
      then have "map_of (fa_flows fa) k = Some r" "map_of (fa_flows fa) k' = Some r'"
        using a by (simp_all add: update_conv')
      then show ?thesis using a(3) un old by (auto simp: unshared_def)
    qed simp
  qed
  moreover have "flow_ok (t, e) (st_flows ?st ! ?ref) []" "history_ref ?st ?ref < length (st_rings ?st)"
    using new_flow_ok [of t e ?h] new by simp_all
  moreover have "history_ok (nat (fa_packetBufferSize fa)) (t, e) (st_rings ?st ! history_ref ?st ?ref) []"
    using new_history_ok [OF rb size] new by simp
  ultimately have "pending m (t, e) ?ref ?fa ?st"
    using wf size dom mk entries by (auto simp: pending_def update_conv' Let_def)
  then show ?thesis
    using none rb by (intro exI [of _ ?fa] exI [of _ ?st]) (simp add: get_or_create_def Let_def)
qed

lemma get_or_create_pending:
  assumes sim: "sim m (fa, st)"
  shows "\<exists>ref fa' st'. get_or_create t e (fa, st) = Inr (ref, fa', st') \<and> pending m (t, e) ref fa' st' \<and>
           fa_packetBufferSize fa' = fa_packetBufferSize fa \<and> fa_globalStats fa' = fa_globalStats fa \<and>
           fa_flowTimeout fa' = fa_flowTimeout fa"
proof (cases "map_of (fa_flows fa) (getFlowKey e)")
  case None
  then show ?thesis using get_or_create_new [OF sim None, of t] by blast
next
  case (Some ref)
  then show ?thesis using get_or_create_existing [OF sim Some, of t] by blast
qed

text \<open>Writing the processed flow and history back restores the simulation.\<close>

lemma pending_write_back:
  assumes pend: "pending m (t, e) ref fa st"
    and wf: "wf_map names"
    and names: "\<forall>d. map_get names d = of_nat (count_list (map dq_Domain (queries_of (t, e))) d)"
  shows "\<exists>rb'. Add (st_rings st ! history_ref st ref)
             (Some (packet_record t e (if is_forward e (st_flows st ! ref) then ''forward'' else ''reverse'')
                (last_opt (queries_of (t, e))))) = Inr rb' \<and>
           sim (group_add (t, e) m)
             (fa, st\<lparr>st_flows := (st_flows st)[ref := step_flow (t, e) names (st_flows st ! ref)],
                     st_rings := (st_rings st)[history_ref st ref := rb']\<rparr>)"
proof -
  let ?k = "getFlowKey e" and ?f = "st_flows st ! ref" and ?h = "history_ref st ref"
  define es where "es = (case m ?k of None \<Rightarrow> [] | Some es \<Rightarrow> es)"
  define o0 where "o0 = hd (es @ [(t, e)])"
  have p: "wf_map (fa_flows fa)" "0 < fa_packetBufferSize fa" "unshared fa st"
    "dom (map_of (fa_flows fa)) = insert ?k (dom m)" "map_of (fa_flows fa) ?k = Some ref"
    "\<forall>o2 \<in> set es. getFlowKey (snd o2) = ?k"
    "ref < length (st_flows st)" "?h < length (st_rings st)" "flow_ok o0 ?f es"
    "history_ok (nat (fa_packetBufferSize fa)) o0 (st_rings st ! ?h) es"
    and others: "\<And>k' ref'. k' \<noteq> ?k \<Longrightarrow> map_of (fa_flows fa) k' = Some ref' \<Longrightarrow>
         entry_ok (fa_packetBufferSize fa) st k' ref' (the (m k'))"
    using pend by (simp_all add: pending_def Let_def es_def o0_def)
  have "getFlowKey (snd o0) = ?k"
    using p(6) by (cases es) (simp_all add: o0_def)
  then have proto: "ProtocolName (evt_Protocol (snd o0)) = ProtocolName (evt_Protocol e)"
    by (simp add: getFlowKey_eq_iff)
  from flow_step [OF p(9) proto wf names]
  have fl: "flow_ok o0 (step_flow (t, e) names ?f) (es @ [(t, e)])"
    "flow_PacketHistory (step_flow (t, e) names ?f) = ?h"
    by (simp_all add: history_ref_def)
  have rec: "packet_record t e (if is_forward e ?f then ''forward'' else ''reverse'') (last_opt (queries_of (t, e))) =
      record_of (evt_Saddr (snd o0)) (evt_Daddr (snd o0)) (t, e)"
    using is_forward_identity [of o0 ?f e t] p(9) by (simp add: record_of_def flow_ok_def)
  from history_step [OF p(10), of "(t, e)"] obtain rb' where
    rb': "Add (st_rings st ! ?h) (Some (record_of (evt_Saddr (snd o0)) (evt_Daddr (snd o0)) (t, e))) = Inr rb'"
    "history_ok (nat (fa_packetBufferSize fa)) o0 rb' (es @ [(t, e)])" by blast
  let ?st = "st\<lparr>st_flows := (st_flows st)[ref := step_flow (t, e) names ?f], st_rings := (st_rings st)[?h := rb']\<rparr>"
  have apart: "history_ref st r \<noteq> ?h \<and> r \<noteq> ref" if "k' \<noteq> ?k" "map_of (fa_flows fa) k' = Some r" for k' r
    using that p(3,5) by (auto simp: unshared_def)
  have href: "history_ref ?st r = history_ref st r" if "map_of (fa_flows fa) k' = Some r" for k' r
    using fl(2) p(7) by (cases "r = ref") (simp_all add: history_ref_def)
  have "unshared fa ?st"
    using p(3) href unfolding unshared_def by metis
  moreover have "entry_ok (fa_packetBufferSize fa) ?st k' r (the (group_add (t, e) m k'))"
    if "map_of (fa_flows fa) k' = Some r" for k' r
  proof (cases "k' = ?k")
    case True
    then have "r = ref" using that p(5) by simp
    then show ?thesis
      using True fl rb'(2) p(6,7,8) by (simp add: entry_ok_def group_add_def history_ref_def o0_def flip: es_def)
  next
    case False
    then show ?thesis
      using entry_ok_other [OF others [OF False that]] apart [OF False that] by (simp add: group_add_def)
  qed
  ultimately have "sim (group_add (t, e) m) (fa, ?st)"
    using p(1,2,4) by (simp add: sim_def group_add_def)
  then show ?thesis using rb'(1) rec by auto
qed

lemma processEvent_sim:
  assumes sim: "sim m (fa, st)"
  shows "\<exists>fa' st'. processEvent now evt (fa, st) = Inr (fa', st') \<and> sim (group_add (now, evt) m) (fa', st') \<and>
     fa_packetBufferSize fa' = fa_packetBufferSize fa \<and> fa_flowTimeout fa' = fa_flowTimeout fa \<and>
     fa_globalStats fa' = (fa_globalStats fa)\<lparr>
       gs_TotalPackets := gs_TotalPackets (fa_globalStats fa) + 1,
       gs_TotalBytes := gs_TotalBytes (fa_globalStats fa) + ucast (evt_Len evt), gs_LastUpdated := now\<rparr>"
proof -
  obtain names where dns: "parse_event_dns now ''forward'' evt =
       Inr (last_opt (queries_of (now, evt)), queries_of (now, evt), names)"
    and wf: "wf_map names"
    and names: "\<forall>d. map_get names d = of_nat (count_list (map dq_Domain (queries_of (now, evt))) d)"
    using parse_event_dns_queries by blast
  let ?gs = "(fa_globalStats fa)\<lparr>
       gs_TotalPackets := gs_TotalPackets (fa_globalStats fa) + 1,
       gs_TotalBytes := gs_TotalBytes (fa_globalStats fa) + ucast (evt_Len evt), gs_LastUpdated := now\<rparr>"
  let ?fa = "fa\<lparr>fa_globalStats := ?gs\<rparr>"
  have "sim m (?fa, st)" using sim by (simp add: sim_def unshared_def)
  from get_or_create_pending [OF this, of now evt] obtain ref fa1 st1 where
    gc: "get_or_create now evt (?fa, st) = Inr (ref, fa1, st1)" and pend: "pending m (now, evt) ref fa1 st1"
    and keep: "fa_packetBufferSize fa1 = fa_packetBufferSize fa" "fa_globalStats fa1 = ?gs"
      "fa_flowTimeout fa1 = fa_flowTimeout fa"
    by auto
  let ?f = "st_flows st1 ! ref"
  from pending_write_back [OF pend wf names] obtain rb' where
    add: "Add (st_rings st1 ! history_ref st1 ref)
             (Some (packet_record now evt (if is_forward evt ?f then ''forward'' else ''reverse'')
                (last_opt (queries_of (now, evt))))) = Inr rb'"
    and sim': "sim (group_add (now, evt) m) (fa1, st1\<lparr>st_flows := (st_flows st1)[ref := step_flow (now, evt) names ?f],
                     st_rings := (st_rings st1)[history_ref st1 ref := rb']\<rparr>)" by blast
  have refs: "ref < length (st_flows st1)" "flow_PacketHistory ?f < length (st_rings st1)"
    using pend by (simp_all add: pending_def Let_def history_ref_def)
  have rec: "(if is_forward evt ?f then packet_record now evt ''forward'' dq
              else packet_record now evt ''forward'' dq\<lparr>rec_Direction := ''reverse''\<rparr>) =
      packet_record now evt (if is_forward evt ?f then ''forward'' else ''reverse'') dq" for dq
    by (simp add: packet_record_def)
  have "processEvent now evt (fa, st) = Inr (fa1, st1\<lparr>st_flows := (st_flows st1)[ref := step_flow (now, evt) names ?f],
                     st_rings := (st_rings st1)[history_ref st1 ref := rb']\<rparr>)"
    using dns gc refs add
    by (simp add: processEvent_def Let_def rec step_flow_def history_ref_def)
  then show ?thesis using sim' keep by auto
qed

subsection \<open>Sweeping idle flows\<close>

definition idle :: "time \<Rightarrow> duration \<Rightarrow> store \<Rightarrow> string \<times> nat \<Rightarrow> bool" where
  "idle now timeout st entry \<longleftrightarrow> time_Sub now (flow_LastPacketTime (st_flows st ! snd entry)) > timeout"

text \<open>What the loop leaves in the store: the idle flows among those visited are marked closed.\<close>

definition close_flows :: "time \<Rightarrow> duration \<Rightarrow> (string, nat) gmap \<Rightarrow> store \<Rightarrow> store" where
  "close_flows now timeout xs st =
     st\<lparr>st_flows := map (\<lambda>r. if r \<in> snd ` set (filter (idle now timeout st) xs)
                             then (st_flows st ! r)\<lparr>flow_State := ''closed''\<rparr> else st_flows st ! r)
                        [0..<length (st_flows st)]\<rparr>"

lemma close_flows_Nil: "close_flows now timeout [] st = st"
  by (simp add: close_flows_def map_nth)

lemma idle_loop_result:
  assumes "\<forall>(k, r) \<in> set xs. r < length (st_flows st)"
  shows "idle_loop now timeout xs st acc =
     Inr (close_flows now timeout xs st, acc @ map fst (filter (idle now timeout st) xs))"
  using assms
proof (induction xs arbitrary: st acc)
  case Nil
  then show ?case by (simp add: close_flows_Nil)
next
  case (Cons p xs)
  obtain k r where p: "p = (k, r)" by (cases p)
  have r: "r < length (st_flows st)" and rest: "\<forall>(k, r) \<in> set xs. r < length (st_flows st)"
    using Cons.prems by (auto simp: p)
  show ?case
  proof (cases "idle now timeout st p")
    case False
    then have "close_flows now timeout (p # xs) st = close_flows now timeout xs st"
      by (simp add: close_flows_def)
    with False r show ?thesis
      by (simp add: p idle_def Cons.IH [OF rest])
  next
    case True
    let ?st = "st\<lparr>st_flows := (st_flows st)[r := (st_flows st ! r)\<lparr>flow_State := ''closed''\<rparr>]\<rparr>"
    have same: "idle now timeout ?st = idle now timeout st"
    proof
      fix e show "idle now timeout ?st e = idle now timeout st e"
        using r by (cases "snd e = r") (simp_all add: idle_def)
    qed
    have "close_flows now timeout (p # xs) st = close_flows now timeout xs ?st"
      using True r unfolding close_flows_def same
      by (auto simp: p intro!: store.equality nth_equalityI simp: nth_list_update)
    moreover have "\<forall>(k, r') \<in> set xs. r' < length (st_flows ?st)" using rest by simp
    ultimately show ?thesis
      using True r by (simp add: p idle_def [of _ _ _ "(k, r)"] Cons.IH same)
  qed
qed

lemma map_of_foldl_delete:
  "map_of (foldl (\<lambda>m k. AList.delete k m) m ks) k = (if k \<in> set ks then None else map_of m k)"
  by (induction ks arbitrary: m) (simp_all add: delete_conv')

lemma wf_map_foldl_delete: "wf_map m \<Longrightarrow> wf_map (foldl (\<lambda>m k. AList.delete k m) m ks)"
  by (induction ks arbitrary: m) simp_all

text \<open>The sweep as one assignment, whatever the visiting order.\<close>

definition stale :: "time \<Rightarrow> FlowAggregator \<Rightarrow> store \<Rightarrow> string \<Rightarrow> bool" where
  "stale now fa st k \<longleftrightarrow>
     (case map_of (fa_flows fa) k of None \<Rightarrow> False | Some r \<Rightarrow> idle now (fa_flowTimeout fa) st (k, r))"

lemma close_flows_visit:
  "set xs = set ys \<Longrightarrow> close_flows now timeout xs st = close_flows now timeout ys st"
  by (simp add: close_flows_def)

lemma closeIdleFlows_result:
  assumes visit: "range_order visit" and wf: "wf_map (fa_flows fa)"
    and refs: "\<forall>(k, r) \<in> set (fa_flows fa). r < length (st_flows st)"
  shows "\<exists>m'. closeIdleFlows visit now (fa, st) =
       Inr (fa\<lparr>fa_flows := m'\<rparr>, close_flows now (fa_flowTimeout fa) (fa_flows fa) st) \<and> wf_map m' \<and>
     (\<forall>k. map_of m' k = (if stale now fa st k then None else map_of (fa_flows fa) k))"
proof -
  let ?xs = "visit (fa_flows fa)" and ?idle = "idle now (fa_flowTimeout fa) st"
  let ?m = "foldl (\<lambda>m k. AList.delete k m) (fa_flows fa) (map fst (filter ?idle ?xs))"
  have set: "set ?xs = set (fa_flows fa)" using visit by simp
  have "closeIdleFlows visit now (fa, st) =
      Inr (fa\<lparr>fa_flows := ?m\<rparr>, close_flows now (fa_flowTimeout fa) (fa_flows fa) st)"
    using refs set close_flows_visit [OF set]
    by (simp add: closeIdleFlows_def idle_loop_result)
  moreover have "k \<in> fst ` set (filter ?idle ?xs) \<longleftrightarrow> stale now fa st k" for k
  proof (cases "map_of (fa_flows fa) k")
    case None
    then have "k \<notin> fst ` set (fa_flows fa)" by (simp add: map_of_eq_None_iff)
    with None set show ?thesis by (auto simp: stale_def)
  next
    case (Some r)
    then have "(k, r') \<in> set (fa_flows fa) \<longleftrightarrow> r' = r" for r'
      using wf map_of_eq_Some_iff [of "fa_flows fa" k r'] by (auto simp: wf_map_def)
    with Some set show ?thesis by (force simp: stale_def)
  qed
  then have "map_of ?m k = (if stale now fa st k then None else map_of (fa_flows fa) k)" for k
    by (simp add: map_of_foldl_delete)
  ultimately show ?thesis
    using wf_map_foldl_delete [OF wf] by blast
qed

lemma stale_iff:
  assumes "sim m (fa, st)"
  shows "stale now fa st k \<longleftrightarrow>
    (\<exists>es. m k = Some es \<and> time_Sub now (fst (last es)) > fa_flowTimeout fa)"
proof (cases "map_of (fa_flows fa) k")
  case None
  then have "m k = None" using assms by (auto simp: sim_def)
  with None show ?thesis by (simp add: stale_def)
next
  case (Some r)
  from simD [OF assms Some] obtain es where "m k = Some es" "entry_ok (fa_packetBufferSize fa) st k r es" by blast
  with Some show ?thesis
    by (simp add: stale_def idle_def entry_ok_def flow_ok_def counters_ok_def)
qed

lemma closeIdleFlows_sim:
  assumes sim: "sim m (fa, st)" and visit: "range_order visit"
  shows "\<exists>m'. closeIdleFlows visit now (fa, st) =
       Inr (fa\<lparr>fa_flows := m'\<rparr>, close_flows now (fa_flowTimeout fa) (fa_flows fa) st) \<and>
     sim (group_sweep (fa_flowTimeout fa) now m)
       (fa\<lparr>fa_flows := m'\<rparr>, close_flows now (fa_flowTimeout fa) (fa_flows fa) st)"
proof -
  let ?st = "close_flows now (fa_flowTimeout fa) (fa_flows fa) st"
  have wf: "wf_map (fa_flows fa)" and dom: "dom (map_of (fa_flows fa)) = dom m"
    and un: "unshared fa st" and size: "0 < fa_packetBufferSize fa"
    using sim by (simp_all add: sim_def)
  have refs: "r < length (st_flows st)" if "map_of (fa_flows fa) k = Some r" for k r
    using simD [OF sim that] by (auto simp: entry_ok_def)
  have "\<forall>(k, r) \<in> set (fa_flows fa). r < length (st_flows st)"
    using refs wf by (auto simp: wf_map_def)
  from closeIdleFlows_result [OF visit wf this, of now] obtain m' where
    run: "closeIdleFlows visit now (fa, st) = Inr (fa\<lparr>fa_flows := m'\<rparr>, ?st)" and wf': "wf_map m'"
    and m': "\<And>k. map_of m' k = (if stale now fa st k then None else map_of (fa_flows fa) k)" by blast
  have hist: "history_ref ?st r = history_ref st r" if "r < length (st_flows st)" for r
    using that by (simp add: history_ref_def close_flows_def)
  have keep: "st_flows ?st ! r = st_flows st ! r" if k: "map_of (fa_flows fa) k = Some r" "\<not> stale now fa st k" for k r
  proof -
    have "r \<notin> snd ` set (filter (idle now (fa_flowTimeout fa) st) (fa_flows fa))"
    proof
      assume "r \<in> snd ` set (filter (idle now (fa_flowTimeout fa) st) (fa_flows fa))"
      then obtain k' where "(k', r) \<in> set (fa_flows fa)" "idle now (fa_flowTimeout fa) st (k', r)" by auto
      moreover from this have "map_of (fa_flows fa) k' = Some r" using wf by (simp add: wf_map_def)
      moreover from this have "k' = k" using un k by (auto simp: unshared_def)
      ultimately show False using k by (simp add: stale_def)
    qed
    then show ?thesis using refs [OF k(1)] by (simp add: close_flows_def)
  qed
  have entries: "entry_ok (fa_packetBufferSize fa) ?st k r (the (group_sweep (fa_flowTimeout fa) now m k))"
    if "map_of m' k = Some r" for k r
  proof -
    have k: "map_of (fa_flows fa) k = Some r" "\<not> stale now fa st k"
      using that m' by (simp_all split: if_splits)
    from simD [OF sim k(1)] obtain es where es: "m k = Some es"
      "entry_ok (fa_packetBufferSize fa) st k r es" by blast
    moreover have "group_sweep (fa_flowTimeout fa) now m k = Some es"
      using es(1) k(2) stale_iff [OF sim] by (auto simp: group_sweep_def)
    moreover have "st_rings ?st = st_rings st" "length (st_flows ?st) = length (st_flows st)"
      by (simp_all add: close_flows_def)
    ultimately show ?thesis using keep [OF k] by (simp add: entry_ok_def)
  qed
  have un': "unshared (fa\<lparr>fa_flows := m'\<rparr>) ?st"
    unfolding unshared_def using un m' refs hist
    by (simp add: unshared_def split: if_splits)
  have "dom (map_of m') = dom (group_sweep (fa_flowTimeout fa) now m)"
    using dom m' stale_iff [OF sim]
    by (auto simp: group_sweep_def dom_def set_eq_iff split: option.splits if_splits)
  then have "sim (group_sweep (fa_flowTimeout fa) now m) (fa\<lparr>fa_flows := m'\<rparr>, ?st)"
    using wf' size un' entries by (simp add: sim_def)
  with run show ?thesis by blast
qed

subsection \<open>Runs of the aggregator\<close>

definition empty_store :: store where
  "empty_store = \<lparr>st_flows = [], st_rings = []\<rparr>"

definition run_from_new :: "time \<Rightarrow> duration \<Rightarrow> int \<Rightarrow> agg_op list \<Rightarrow> (FlowAggregator \<times> store) go" where
  "run_from_new now timeout bsz ops = gfold agg_step (NewFlowAggregator now timeout bsz, empty_store) ops"

definition conversations :: "duration \<Rightarrow> agg_op list \<Rightarrow> groups" where
  "conversations timeout ops = foldl (group_step timeout) Map.empty ops"

fun obs_of :: "agg_op \<Rightarrow> obs list" where
  "obs_of (Event now evt) = [(now, evt)]"
| "obs_of (Idle visit now) = []"

definition events_of :: "agg_op list \<Rightarrow> obs list" where
  "events_of ops = concat (map obs_of ops)"

definition clamp_size :: "int \<Rightarrow> int" where
  "clamp_size bsz = max 1000 (min 50000 bsz)"

text \<open>The global counters after some observations.\<close>

definition stats_ok :: "obs list \<Rightarrow> GlobalAggregatorStats \<Rightarrow> bool" where
  "stats_ok es gs \<longleftrightarrow> gs_TotalPackets gs = of_nat (length es) \<and> gs_TotalBytes gs = bytes_of es \<and>
     gs_DroppedPackets gs = 0 \<and> (es \<noteq> [] \<longrightarrow> gs_LastUpdated gs = fst (last es))"

lemma agg_step_sim:
  assumes sim: "sim m (fa, st)" and ok: "op_ok op" and stats: "stats_ok es (fa_globalStats fa)"
  shows "\<exists>fa' st'. agg_step (fa, st) op = Inr (fa', st') \<and>
     sim (group_step (fa_flowTimeout fa) m op) (fa', st') \<and> stats_ok (es @ obs_of op) (fa_globalStats fa') \<and>
     fa_packetBufferSize fa' = fa_packetBufferSize fa \<and> fa_flowTimeout fa' = fa_flowTimeout fa"
proof (cases op)
  case (Event now evt)
  then show ?thesis
    using processEvent_sim [OF sim, of now evt] stats by (auto simp: stats_ok_def add.commute)
next
  case (Idle visit now)
  then have "range_order visit" using ok by simp
  from closeIdleFlows_sim [OF sim this, of now] Idle stats show ?thesis by auto
qed

lemma run_sim:
  assumes "sim m (fa, st)" and "list_all op_ok ops" and "stats_ok es (fa_globalStats fa)"
  shows "\<exists>fa' st'. gfold agg_step (fa, st) ops = Inr (fa', st') \<and>
     sim (foldl (group_step (fa_flowTimeout fa)) m ops) (fa', st') \<and>
     stats_ok (es @ events_of ops) (fa_globalStats fa') \<and>
     fa_packetBufferSize fa' = fa_packetBufferSize fa \<and> fa_flowTimeout fa' = fa_flowTimeout fa"
  using assms
proof (induction ops arbitrary: m fa st es)
  case (Cons op ops)
  then obtain fa1 st1 where step: "agg_step (fa, st) op = Inr (fa1, st1)"
    "sim (group_step (fa_flowTimeout fa) m op) (fa1, st1)" "stats_ok (es @ obs_of op) (fa_globalStats fa1)"
    "fa_packetBufferSize fa1 = fa_packetBufferSize fa" "fa_flowTimeout fa1 = fa_flowTimeout fa"
    using agg_step_sim [OF Cons.prems(1) _ Cons.prems(3), of op] by auto
  from Cons.IH [OF step(2) _ step(3)] Cons.prems(2) step show ?case
    by (simp add: events_of_def)
qed (simp add: events_of_def)

text \<open>Every run from a new aggregator returns a state that represents its conversations.\<close>

lemma run_from_new_ok:
  assumes "list_all op_ok ops"
  shows "\<exists>fa st. run_from_new now timeout bsz ops = Inr (fa, st) \<and> sim (conversations timeout ops) (fa, st) \<and>
     stats_ok (events_of ops) (fa_globalStats fa) \<and> fa_packetBufferSize fa = clamp_size bsz \<and>
     fa_flowTimeout fa = timeout"
proof -
  let ?fa = "NewFlowAggregator now timeout bsz"
  have "sim Map.empty (?fa, empty_store)" by (simp add: empty_store_def sim_new)
  moreover have "stats_ok [] (fa_globalStats ?fa)" by (simp add: stats_ok_def NewFlowAggregator_def Let_def)
  moreover have "fa_packetBufferSize ?fa = clamp_size bsz" "fa_flowTimeout ?fa = timeout"
    by (simp_all add: NewFlowAggregator_def clamp_size_def Let_def)
  ultimately show ?thesis
    using run_sim [of Map.empty ?fa empty_store ops "[]"] assms
    by (simp add: run_from_new_def conversations_def)
qed

text \<open>The flow of a conversation in the state after a run, with its history.\<close>

lemma run_from_new_flow:
  assumes "list_all op_ok ops" and "run_from_new now timeout bsz ops = Inr (fa, st)"
    and "map_of (fa_flows fa) k = Some r"
  shows "\<exists>es. conversations timeout ops k = Some es \<and> entry_ok (clamp_size bsz) st k r es"
  using run_from_new_ok [OF assms(1), of now timeout bsz] assms(2,3)
  by (auto dest!: simD)

lemma run_from_new_keys:
  assumes "list_all op_ok ops" and "run_from_new now timeout bsz ops = Inr (fa, st)"
  shows "wf_map (fa_flows fa) \<and> dom (map_of (fa_flows fa)) = dom (conversations timeout ops) \<and>
    stats_ok (events_of ops) (fa_globalStats fa)"
  using run_from_new_ok [OF assms(1), of now timeout bsz] assms(2) by (auto simp: sim_def)

text \<open>The observations of a conversation are observations of the run, in order.\<close>

lemma conversations_subset:
  "conversations timeout ops k = Some es \<Longrightarrow> set es \<subseteq> set (events_of ops) \<and> es \<noteq> [] \<and> (\<forall>o1 \<in> set es. getFlowKey (snd o1) = k)"
proof (induction ops arbitrary: es rule: rev_induct)
  case (snoc op ops)
  then show ?case
    by (cases op)
       (force simp: conversations_def events_of_def group_add_def group_sweep_def split: if_splits option.splits)+
qed (simp add: conversations_def)

lemma length_conversation:
  "conversations timeout ops k = Some es \<Longrightarrow> length es \<le> length (events_of ops)"
proof (induction ops arbitrary: es rule: rev_induct)
  case (snoc op ops)
  then show ?case
    by (cases op)
       (force simp: conversations_def events_of_def group_add_def group_sweep_def split: if_splits option.splits)+
qed (simp add: conversations_def)

end
