(* ===== verification/Conversations.thy ===== *)
theory Conversations
  imports AggregatorProps Reader
begin

text \<open>
  What the aggregator promises, for every sequence of events and idle sweeps from a new aggregator:
  the properties read off the simulation of \<open>AggregatorProps\<close>.
\<close>

subsection \<open>Concrete traffic for the witnesses\<close>

definition packet :: "u32 \<Rightarrow> u32 \<Rightarrow> u16 \<Rightarrow> u16 \<Rightarrow> u8 \<Rightarrow> u32 \<Rightarrow> PacketEvent" where
  "packet src dst sport dport proto len =
     \<lparr>evt_TimestampNs = 0, evt_Hash = 0, evt_Saddr = src, evt_Daddr = dst, evt_Sport = sport,
      evt_Dport = dport, evt_Protocol = proto, evt_ProbePoint = 0, evt_Pad1 = 0, evt_Len = len,
      evt_CpuId = 0, evt_QueueMapping = 0, evt_Pad2 = 0, evt_Payload = []\<rparr>"

definition traffic :: "agg_op list" where
  "traffic = [Event 1 (packet 1 2 5000 443 6 60), Event 2 (packet 2 1 443 5000 6 1500),
              Event 3 (packet 1 2 5000 443 6 60), Event 4 (packet 7 8 53 53 17 80)]"

lemma traffic_ok [simp]: "list_all op_ok traffic"
  by (simp add: traffic_def)

lemma traffic_keys:
  "getFlowKey (packet 2 1 443 5000 6 1500) = getFlowKey (packet 1 2 5000 443 6 60)"
  "getFlowKey (packet 1 2 5000 443 6 60) \<noteq> getFlowKey (packet 7 8 53 53 17 80)"
  by (simp_all add: getFlowKey_eq_iff packet_def)

abbreviation web_key :: string where
  "web_key \<equiv> getFlowKey (packet 1 2 5000 443 6 60)"

definition web_obs :: "obs list" where
  "web_obs = [(1, packet 1 2 5000 443 6 60), (2, packet 2 1 443 5000 6 1500), (3, packet 1 2 5000 443 6 60)]"

lemma traffic_conversation: "conversations timeout traffic web_key = Some web_obs"
  using traffic_keys
  by (simp add: conversations_def traffic_def group_add_def web_obs_def)

lemma traffic_run:
  "\<exists>fa st r. run_from_new 0 timeout bsz traffic = Inr (fa, st) \<and> map_of (fa_flows fa) web_key = Some r"
proof -
  obtain fa st where run: "run_from_new 0 timeout bsz traffic = Inr (fa, st)"
    using run_from_new_ok [OF traffic_ok] by blast
  then have "web_key \<in> dom (map_of (fa_flows fa))"
    using run_from_new_keys [OF traffic_ok run] traffic_conversation by auto
  with run show ?thesis by blast
qed

subsection \<open>Flow keys\<close>

text \<open>
  C24: The flow key identifies a conversation and nothing else. Two packets get the same key exactly when
  their protocol names agree and their addresses are the same two, in the same or the opposite
  order; in particular a packet and its answer share a flow, and no two address pairs collide in
  the text of the key. The ports play no part.
\<close>

theorem flow_keys_identify_conversations:
  "(getFlowKey e1 = getFlowKey e2 \<longleftrightarrow>
     ProtocolName (evt_Protocol e1) = ProtocolName (evt_Protocol e2) \<and>
     {evt_Saddr e1, evt_Daddr e1} = {evt_Saddr e2, evt_Daddr e2}) \<and>
   getFlowKey (e1\<lparr>evt_Saddr := evt_Daddr e1, evt_Daddr := evt_Saddr e1, evt_Sport := evt_Dport e1,
                  evt_Dport := evt_Sport e1\<rparr>) = getFlowKey e1"
  by (auto simp: getFlowKey_eq_iff doubleton_eq_iff)

subsection \<open>The refinement\<close>

text \<open>
  C1: The aggregator implements the grouping of packets into conversations. Any sequence of events and idle
  sweeps runs without a panic; afterwards the map has an entry exactly for the conversations that have
  packets since they were last swept, and its flow carries exactly what those packets determine:
  the addresses and the protocol of the first, the packet and byte counts in total and per direction, the
  port tables with their most frequent ports, the DNS queries and failures, the TCP state and its changes.
\<close>

theorem aggregator_tracks_conversations:
  assumes "list_all op_ok ops"
  shows "\<exists>fa st. run_from_new now timeout bsz ops = Inr (fa, st) \<and>
     (\<forall>k. case conversations timeout ops k of
            None \<Rightarrow> map_of (fa_flows fa) k = None
          | Some es \<Rightarrow> \<exists>r. map_of (fa_flows fa) k = Some r \<and> r < length (st_flows st) \<and>
                        flow_ok (hd es) (st_flows st ! r) es)"
proof -
  from run_from_new_ok [OF assms, of now timeout bsz] obtain fa st where
    run: "run_from_new now timeout bsz ops = Inr (fa, st)" by blast
  have dom: "dom (map_of (fa_flows fa)) = dom (conversations timeout ops)"
    using run_from_new_keys [OF assms run] by blast
  have "case conversations timeout ops k of
            None \<Rightarrow> map_of (fa_flows fa) k = None
          | Some es \<Rightarrow> \<exists>r. map_of (fa_flows fa) k = Some r \<and> r < length (st_flows st) \<and>
                        flow_ok (hd es) (st_flows st ! r) es" for k
  proof (cases "map_of (fa_flows fa) k")
    case None
    then show ?thesis using dom by (auto split: option.split)
  next
    case (Some r)
    then show ?thesis using run_from_new_flow [OF assms run Some] by (auto simp: entry_ok_def)
  qed
  with run show ?thesis by blast
qed

theorem aggregator_tracks_conversations_witness:
  "\<exists>fa st r. run_from_new 0 10 5000 traffic = Inr (fa, st) \<and> map_of (fa_flows fa) web_key = Some r \<and>
     flow_PacketCount (st_flows st ! r) = 3 \<and> flow_ByteCount (st_flows st ! r) = 1620 \<and>
     flow_ForwardBytes (st_flows st ! r) = 120 \<and> flow_ReversePackets (st_flows st ! r) = 1"
proof -
  from aggregator_tracks_conversations [OF traffic_ok, of 0 10 5000] obtain fa st where
    run: "run_from_new 0 10 5000 traffic = Inr (fa, st)" and
    all: "\<And>k. case conversations 10 traffic k of
            None \<Rightarrow> map_of (fa_flows fa) k = None
          | Some es \<Rightarrow> \<exists>r. map_of (fa_flows fa) k = Some r \<and> r < length (st_flows st) \<and>
                        flow_ok (hd es) (st_flows st ! r) es" by blast
  from all [of web_key] obtain r where r: "map_of (fa_flows fa) web_key = Some r"
    "flow_ok (hd web_obs) (st_flows st ! r) web_obs"
    by (auto simp: traffic_conversation)
  then show ?thesis
    using run by (intro exI [of _ fa] exI [of _ st] exI [of _ r])
      (simp add: flow_ok_def counters_ok_def web_obs_def bytes_of_def forward_def packet_def)
qed

subsection \<open>Histories\<close>

text \<open>
  C22: The packet history of a conversation is its newest packets. After any run, reading the history
  of a flow returns the records of the last packets of its conversation, oldest first, as many
  as the buffer size holds (which is held between 1000 and 50000), each with the
  direction it had relative to the first packet.
\<close>

theorem history_holds_newest_records:
  assumes "list_all op_ok ops" and "run_from_new now timeout bsz ops = Inr (fa, st)"
    and "map_of (fa_flows fa) k = Some r"
  shows "\<exists>es. conversations timeout ops k = Some es \<and>
     GetAll (st_rings st ! flow_PacketHistory (st_flows st ! r)) =
       Inr (lastn (nat (clamp_size bsz)) (map (record_of (evt_Saddr (snd (hd es))) (evt_Daddr (snd (hd es)))) es)) \<and>
     1000 \<le> clamp_size bsz \<and> clamp_size bsz \<le> 50000"
  using run_from_new_flow [OF assms] by (auto simp: entry_ok_def history_ok_def clamp_size_def intro: GetAll_slots)

theorem history_holds_newest_records_witness:
  "\<exists>fa st r rs. run_from_new 0 10 5000 traffic = Inr (fa, st) \<and> map_of (fa_flows fa) web_key = Some r \<and>
     GetAll (st_rings st ! flow_PacketHistory (st_flows st ! r)) = Inr rs \<and>
     map rec_Direction rs = [''forward'', ''reverse'', ''forward''] \<and> map rec_Length rs = [60, 1500, 60]"
proof -
  obtain fa st r where run: "run_from_new 0 10 5000 traffic = Inr (fa, st)" "map_of (fa_flows fa) web_key = Some r"
    using traffic_run by blast
  have "map (record_of 1 2) web_obs = map (record_of (evt_Saddr (snd (hd web_obs))) (evt_Daddr (snd (hd web_obs)))) web_obs"
    by (simp add: web_obs_def packet_def)
  then have "GetAll (st_rings st ! flow_PacketHistory (st_flows st ! r)) = Inr (map (record_of 1 2) web_obs)"
    using history_holds_newest_records [OF traffic_ok run] traffic_conversation
    by (auto simp: clamp_size_def web_obs_def)
  then show ?thesis
    using run by (intro exI [of _ fa] exI [of _ st] exI [of _ r] exI [of _ "map (record_of 1 2) web_obs"])
      (simp add: web_obs_def record_of_def packet_record_def forward_def packet_def)
qed

subsection \<open>Accounting\<close>

text \<open>
  C25: The global statistics count every event once. After any run the snapshot shows as many packets as
  events were processed and the sum of their lengths (modulo \<open>2 ^ 64\<close>), and as many flows as there are
  live conversations. It never shows a dropped packet or a loss rate: what the reader drops is
  counted elsewhere.
\<close>

theorem global_stats_account:
  assumes "list_all op_ok ops" and "run_from_new now timeout bsz ops = Inr (fa, st)"
  shows "glob_TotalPackets (GetGlobalStats t fa) = of_nat (length (events_of ops)) \<and>
     glob_TotalBytes (GetGlobalStats t fa) = bytes_of (events_of ops) \<and>
     glob_TotalFlows (GetGlobalStats t fa) = of_nat (card (dom (conversations timeout ops))) \<and>
     glob_DroppedPackets (GetGlobalStats t fa) = 0 \<and> glob_PacketLossRate (GetGlobalStats t fa) = F64 0 \<and>
     (events_of ops \<noteq> [] \<longrightarrow> glob_UpstreamTime (GetGlobalStats t fa) = fst (last (events_of ops)))"
proof -
  from run_from_new_keys [OF assms] have wf: "wf_map (fa_flows fa)"
    and dom: "dom (map_of (fa_flows fa)) = dom (conversations timeout ops)"
    and stats: "stats_ok (events_of ops) (fa_globalStats fa)" by auto
  have "length (fa_flows fa) = card (fst ` set (fa_flows fa))"
    using wf distinct_card [of "map fst (fa_flows fa)"] by (simp add: wf_map_def)
  then have "length (fa_flows fa) = card (dom (conversations timeout ops))"
    using dom by (simp add: dom_map_of_conv_image_fst)
  then show ?thesis
    using stats by (simp add: GetGlobalStats_def stats_ok_def Let_def f_div_def f_u64_def)
qed

theorem global_stats_account_witness:
  "\<exists>fa st. run_from_new 0 10 5000 traffic = Inr (fa, st) \<and> glob_TotalPackets (GetGlobalStats 9 fa) = 4 \<and>
     glob_TotalBytes (GetGlobalStats 9 fa) = 1700 \<and> glob_DroppedPackets (GetGlobalStats 9 fa) = 0"
proof -
  obtain fa st r where run: "run_from_new 0 10 5000 traffic = Inr (fa, st)" "map_of (fa_flows fa) web_key = Some r"
    using traffic_run by blast
  then show ?thesis
    using global_stats_account [OF traffic_ok run(1), of 9]
    by (simp add: events_of_def traffic_def bytes_of_def packet_def)
qed

lemma bytes_of_partition: "bytes_of (filter P es) + bytes_of (filter (\<lambda>o1. \<not> P o1) es) = bytes_of es"
  by (induction es) (simp_all add: bytes_of_def ac_simps)

lemma sum_list_map_get:
  fixes m :: "('k, 'v::comm_monoid_add) gmap"
  assumes "wf_map m"
  shows "sum_list (map snd m) = (\<Sum>k \<in> fst ` set m. map_get m k)"
proof -
  have "map snd m = map (map_get m) (map fst m)"
    using assms by (auto simp: wf_map_def map_get_def)
  then show ?thesis
    using assms by (simp only: wf_map_def sum_list_distinct_conv_sum_set set_map)
qed

lemma sum_list_counts:
  fixes m :: "('k, u64) gmap"
  assumes "wf_map m" and "fst ` set m = f ` set es"
    and "\<forall>p. map_get m p = of_nat (length (filter (\<lambda>o1. f o1 = p) es))"
  shows "sum_list (map snd m) = of_nat (length es)"
proof -
  have "sum_list (map snd m) = (\<Sum>p \<in> f ` set es. of_nat (count_list (map f es) p))"
    using assms by (simp add: sum_list_map_get count_list_eq_length_filter filter_map comp_def eq_commute)
  also have "\<dots> = of_nat (\<Sum>p \<in> f ` set es. count_list (map f es) p)" by simp
  also have "(\<Sum>p \<in> f ` set es. count_list (map f es) p) = length es"
    using sum_count_set [of "map f es" "f ` set es"] by simp
  finally show ?thesis .
qed

lemma flow_accounts:
  assumes "flow_ok o1 f es"
  shows "flow_ForwardPackets f + flow_ReversePackets f = flow_PacketCount f"
    "flow_ForwardBytes f + flow_ReverseBytes f = flow_ByteCount f"
    "sum_list (map snd (flow_SrcPorts f)) = flow_PacketCount f"
    "sum_list (map snd (flow_DstPorts f)) = flow_PacketCount f"
proof -
  from assms have c: "counters_ok (evt_Saddr (snd o1)) (evt_Daddr (snd o1)) f es" and p: "ports_ok f es"
    by (simp_all add: flow_ok_def)
  have "length (filter P es) + length (filter (\<lambda>o1. \<not> P o1) es) = length es" for P
    by (rule sum_length_filter_compl)
  then show "flow_ForwardPackets f + flow_ReversePackets f = flow_PacketCount f"
    using c by (simp add: counters_ok_def flip: of_nat_add)
  show "flow_ForwardBytes f + flow_ReverseBytes f = flow_ByteCount f"
    using c by (simp add: counters_ok_def bytes_of_partition)
  show "sum_list (map snd (flow_SrcPorts f)) = flow_PacketCount f"
    using sum_list_counts [of "flow_SrcPorts f" "\<lambda>o1. evt_Sport (snd o1)" es] p c
    by (simp add: ports_ok_def counters_ok_def sport_count_def)
  show "sum_list (map snd (flow_DstPorts f)) = flow_PacketCount f"
    using sum_list_counts [of "flow_DstPorts f" "\<lambda>o1. evt_Dport (snd o1)" es] p c
    by (simp add: ports_ok_def counters_ok_def dport_count_def)
qed

lemma flow_top_ports:
  assumes "flow_ok o1 f es" and "length es < 2 ^ 64"
  shows "map_get (flow_SrcPorts f) p \<le> map_get (flow_SrcPorts f) (flow_TopSrcPort f)"
    "map_get (flow_DstPorts f) p \<le> map_get (flow_DstPorts f) (flow_TopDstPort f)"
proof -
  have less: "sport_count es q < 2 ^ 64" "dport_count es q < 2 ^ 64" for q
    using port_counts_le [of es q] assms(2) by simp_all
  show "map_get (flow_SrcPorts f) p \<le> map_get (flow_SrcPorts f) (flow_TopSrcPort f)"
    "map_get (flow_DstPorts f) p \<le> map_get (flow_DstPorts f) (flow_TopDstPort f)"
    using assms less by (simp_all add: flow_ok_def ports_ok_def word_le_nat_alt unat_of_nat_u64)
qed

text \<open>
  C23: Every flow's books balance. In any reachable state the forward and reverse counters of a flow add up
  to its totals, in packets and in bytes; the counts of its source ports, and those of its
  destination ports, add up to its packet count; and as long as fewer than \<open>2 ^ 64\<close> events were
  processed the top ports are ports of maximal count.
\<close>

theorem flow_books_balance:
  assumes "list_all op_ok ops" and "run_from_new now timeout bsz ops = Inr (fa, st)"
    and "map_of (fa_flows fa) k = Some r" and "f = st_flows st ! r"
  shows "flow_ForwardPackets f + flow_ReversePackets f = flow_PacketCount f \<and>
     flow_ForwardBytes f + flow_ReverseBytes f = flow_ByteCount f \<and>
     sum_list (map snd (flow_SrcPorts f)) = flow_PacketCount f \<and>
     sum_list (map snd (flow_DstPorts f)) = flow_PacketCount f \<and>
     (length (events_of ops) < 2 ^ 64 \<longrightarrow>
        map_get (flow_SrcPorts f) p \<le> map_get (flow_SrcPorts f) (flow_TopSrcPort f) \<and>
        map_get (flow_DstPorts f) p \<le> map_get (flow_DstPorts f) (flow_TopDstPort f))"
proof -
  from run_from_new_flow [OF assms(1-3)] obtain es where es: "conversations timeout ops k = Some es"
    "flow_ok (hd es) f es" by (auto simp: entry_ok_def assms(4))
  then have "length es \<le> length (events_of ops)" by (simp add: length_conversation)
  then show ?thesis
    using flow_accounts [OF es(2)] flow_top_ports [OF es(2)] by simp
qed

theorem flow_books_balance_witness:
  "\<exists>fa st r. run_from_new 0 10 5000 traffic = Inr (fa, st) \<and> map_of (fa_flows fa) web_key = Some r \<and>
     flow_ForwardPackets (st_flows st ! r) + flow_ReversePackets (st_flows st ! r) = flow_PacketCount (st_flows st ! r) \<and>
     map_get (flow_SrcPorts (st_flows st ! r)) 443 \<le>
       map_get (flow_SrcPorts (st_flows st ! r)) (flow_TopSrcPort (st_flows st ! r))"
proof -
  obtain fa st r where run: "run_from_new 0 10 5000 traffic = Inr (fa, st)" "map_of (fa_flows fa) web_key = Some r"
    using traffic_run by blast
  moreover have "length (events_of traffic) < 2 ^ 64" by (simp add: events_of_def traffic_def)
  ultimately show ?thesis
    using flow_books_balance [OF traffic_ok run refl, of 443] by blast
qed

subsection \<open>The TCP state\<close>

text \<open>
  C33: The TCP state of a flow is the number of its packets. A conversation whose packets carry
  protocol 6 goes through \<open>syn\<close>, \<open>syn-ack\<close> and \<open>established\<close> with its first three packets,
  whatever their flags, direction or content, records exactly these changes with the times of
  the packets, and shows 6 (the protocol number) as its TCP flags; every other flow stays \<open>new\<close>.
\<close>

theorem tcp_state_counts_packets:
  assumes "list_all op_ok ops" and "run_from_new now timeout bsz ops = Inr (fa, st)"
    and "map_of (fa_flows fa) k = Some r" and "f = st_flows st ! r" and "length (events_of ops) < 2 ^ 64"
  shows "\<exists>es. conversations timeout ops k = Some es \<and>
     (if evt_Protocol (snd (hd es)) = 6
      then flow_State f = tcp_state (length es) \<and> flow_TCPFlags f = 6 \<and>
           flow_StateChanges f = map (\<lambda>i. state_change (fst (es ! i)) i) [0..<min 3 (length es)]
      else flow_State f = ''new'' \<and> flow_TCPFlags f = 0 \<and> flow_StateChanges f = [])"
proof -
  from run_from_new_flow [OF assms(1-3)] obtain es where es: "conversations timeout ops k = Some es"
    "flow_ok (hd es) f es" "es \<noteq> []" by (auto simp: entry_ok_def assms(4))
  then have "length es < 2 ^ 64" using assms(5) length_conversation by fastforce
  moreover have "flow_Protocol f = ''tcp'' \<longleftrightarrow> evt_Protocol (snd (hd es)) = 6"
    using es(2) by (simp add: flow_ok_def identity_ok_def ProtocolName_tcp)
  moreover have "tcp_ok f es" using es(2) by (simp add: flow_ok_def)
  ultimately show ?thesis
    using es by (intro exI [of _ es]) (simp add: tcp_ok_def)
qed

theorem tcp_state_counts_packets_witness:
  "\<exists>fa st r. run_from_new 0 10 5000 traffic = Inr (fa, st) \<and> map_of (fa_flows fa) web_key = Some r \<and>
     flow_State (st_flows st ! r) = ''established'' \<and>
     map sc_Description (flow_StateChanges (st_flows st ! r)) =
       [''new -> syn (packet 1)'', ''syn -> syn-ack (packet 2)'', ''syn-ack -> established (packet 3)'']"
proof -
  obtain fa st r where run: "run_from_new 0 10 5000 traffic = Inr (fa, st)" "map_of (fa_flows fa) web_key = Some r"
    using traffic_run by blast
  have few: "length (events_of traffic) < 2 ^ 64" by (simp add: events_of_def traffic_def)
  have first: "evt_Protocol (snd (hd web_obs)) = 6" "length web_obs = 3" by (simp_all add: web_obs_def packet_def)
  from tcp_state_counts_packets [OF traffic_ok run refl few] show ?thesis
    using run by (intro exI [of _ fa] exI [of _ st] exI [of _ r])
      (auto simp: traffic_conversation first tcp_state_def state_change_def upt_rec dec.simps digit_def char_of_def bit_0)
qed

subsection \<open>Idle flows\<close>

text \<open>
  C21: A sweep removes exactly the idle flows. In any reachable state, in whatever order the
  map is visited, a flow whose last packet is older than the timeout leaves the map and is marked closed
  in place (so that a viewer holding the pointer sees it) and changes in nothing else; every other flow stays in the map untouched;
  and no flow appears.
\<close>

theorem sweep_removes_exactly_idle:
  assumes "list_all op_ok ops" and "run_from_new now timeout bsz ops = Inr (fa, st)" and "range_order visit"
  shows "\<exists>fa' st'. closeIdleFlows visit t (fa, st) = Inr (fa', st') \<and>
     (\<forall>k. case map_of (fa_flows fa) k of
            None \<Rightarrow> map_of (fa_flows fa') k = None
          | Some r \<Rightarrow>
              (if time_Sub t (flow_LastPacketTime (st_flows st ! r)) > timeout
               then map_of (fa_flows fa') k = None \<and>
                    st_flows st' ! r = (st_flows st ! r)\<lparr>flow_State := ''closed''\<rparr>
               else map_of (fa_flows fa') k = Some r \<and> st_flows st' ! r = st_flows st ! r)) \<and>
     st_rings st' = st_rings st \<and> fa_globalStats fa' = fa_globalStats fa"
proof -
  from run_from_new_ok [OF assms(1), of now timeout bsz] assms(2)
  have sim: "sim (conversations timeout ops) (fa, st)" and to: "fa_flowTimeout fa = timeout" by auto
  from sim have wf: "wf_map (fa_flows fa)" and un: "unshared fa st" by (simp_all add: sim_def)
  have refs: "r < length (st_flows st)" if "map_of (fa_flows fa) k = Some r" for k r
    using simD [OF sim that] by (auto simp: entry_ok_def)
  have all: "\<forall>(k, r) \<in> set (fa_flows fa). r < length (st_flows st)"
    using refs wf by (auto simp: wf_map_def)
  let ?st = "close_flows t timeout (fa_flows fa) st"
  from closeIdleFlows_result [OF assms(3) wf all, of t] obtain m' where
    run: "closeIdleFlows visit t (fa, st) = Inr (fa\<lparr>fa_flows := m'\<rparr>, ?st)"
    and m': "\<And>k. map_of m' k = (if stale t fa st k then None else map_of (fa_flows fa) k)"
    unfolding to by blast
  have idle_iff: "r \<in> snd ` set (filter (idle t timeout st) (fa_flows fa)) \<longleftrightarrow> idle t timeout st (k, r)"
    if k: "map_of (fa_flows fa) k = Some r" for k r
    using k wf by (force simp: wf_map_def idle_def dest: map_of_SomeD)
  have main: "case map_of (fa_flows fa) k of
            None \<Rightarrow> map_of m' k = None
          | Some r \<Rightarrow>
              (if time_Sub t (flow_LastPacketTime (st_flows st ! r)) > timeout
               then map_of m' k = None \<and> st_flows ?st ! r = (st_flows st ! r)\<lparr>flow_State := ''closed''\<rparr>
               else map_of m' k = Some r \<and> st_flows ?st ! r = st_flows st ! r)" for k
  proof (cases "map_of (fa_flows fa) k")
    case (Some r)
    have "st_flows ?st ! r = (if idle t timeout st (k, r) then (st_flows st ! r)\<lparr>flow_State := ''closed''\<rparr>
            else st_flows st ! r)"
      using refs [OF Some] idle_iff [OF Some] by (simp add: close_flows_def)
    then show ?thesis
      using Some m' by (simp add: stale_def to idle_def)
  qed (simp add: m')
  have same: "st_rings ?st = st_rings st" "fa_flows (fa\<lparr>fa_flows := m'\<rparr>) = m'"
    "fa_globalStats (fa\<lparr>fa_flows := m'\<rparr>) = fa_globalStats fa" by (simp_all add: close_flows_def)
  show ?thesis
    by (intro exI [of _ "fa\<lparr>fa_flows := m'\<rparr>"] exI [of _ ?st] conjI allI) (simp_all only: run same main)
qed

theorem sweep_removes_exactly_idle_witness:
  "\<exists>fa st r fa' st'. run_from_new 0 10 5000 traffic = Inr (fa, st) \<and> map_of (fa_flows fa) web_key = Some r \<and>
     closeIdleFlows rev 14 (fa, st) = Inr (fa', st') \<and> map_of (fa_flows fa') web_key = None \<and>
     flow_State (st_flows st' ! r) = ''closed''"
proof -
  obtain fa st r where run: "run_from_new 0 10 5000 traffic = Inr (fa, st)" "map_of (fa_flows fa) web_key = Some r"
    using traffic_run by blast
  then have "flow_LastPacketTime (st_flows st ! r) = 3"
    using run_from_new_flow [OF traffic_ok run]
    by (auto simp: traffic_conversation entry_ok_def flow_ok_def counters_ok_def web_obs_def)
  moreover obtain fa' st' where "closeIdleFlows rev 14 (fa, st) = Inr (fa', st')" and
    "\<And>k. case map_of (fa_flows fa) k of
            None \<Rightarrow> map_of (fa_flows fa') k = None
          | Some r \<Rightarrow>
              (if time_Sub 14 (flow_LastPacketTime (st_flows st ! r)) > 10
               then map_of (fa_flows fa') k = None \<and>
                    st_flows st' ! r = (st_flows st ! r)\<lparr>flow_State := ''closed''\<rparr>
               else map_of (fa_flows fa') k = Some r \<and> st_flows st' ! r = st_flows st ! r)"
    using sweep_removes_exactly_idle [OF traffic_ok run(1) range_order_rev, of 14] by auto
  from this(1) this(2) [of web_key] show ?thesis
    using run calculation by (intro exI [of _ fa] exI [of _ st] exI [of _ r] exI [of _ fa'] exI [of _ st'])
      (simp add: time_Sub_def)
qed

subsection \<open>DNS\<close>

lemma parsePacketEvent_payload: "parsePacketEvent bytes = Inr e \<Longrightarrow> evt_Payload e = []"
  by (auto simp: parsePacketEvent_def split: if_splits sum.splits)

text \<open>
  C34: DNS tracking never sees a query. When every event of a run was decoded from a sample, as the
  reader's events are, no flow ever lists a DNS query, a queried name or a failure, and no packet
  record carries one: decoding leaves the payload empty, and only a payload is searched for queries.
\<close>

theorem decoded_events_carry_no_dns:
  assumes "list_all op_ok ops" and "run_from_new now timeout bsz ops = Inr (fa, st)"
    and "map_of (fa_flows fa) k = Some r" and "f = st_flows st ! r"
    and "list_all (\<lambda>o1. \<exists>bytes. parsePacketEvent bytes = Inr (snd o1)) (events_of ops)"
  shows "flow_DNSQueries f = [] \<and> map_get (flow_DNSQueryNames f) d = 0 \<and> flow_DNSFailures f = 0 \<and>
     (\<exists>rs. GetAll (st_rings st ! flow_PacketHistory f) = Inr rs \<and> list_all (\<lambda>p. rec_DNSQuery p = None) rs)"
proof -
  from run_from_new_flow [OF assms(1-3)] obtain es where es: "conversations timeout ops k = Some es"
    and ok: "flow_ok (hd es) f es"
    and hist: "history_ok (nat (clamp_size bsz)) (hd es) (st_rings st ! flow_PacketHistory f) es"
    by (auto simp: entry_ok_def assms(4))
  have none: "queries_of o1 = []" if "o1 \<in> set es" for o1
  proof -
    have "\<exists>bytes. parsePacketEvent bytes = Inr (snd o1)"
      using that conversations_subset [OF es] assms(5) by (auto simp: list_all_iff)
    then have "evt_Payload (snd o1) = []"
      using parsePacketEvent_payload by blast
    then show ?thesis by (cases o1) (simp add: queries_of_no_payload)
  qed
  then have all: "concat (map queries_of es) = []" by simp
  have "flow_DNSQueries f = [] \<and> map_get (flow_DNSQueryNames f) d = 0 \<and> flow_DNSFailures f = 0"
    using ok unfolding flow_ok_def dns_ok_def all by simp
  moreover have "rec_DNSQuery p = None"
    if "p \<in> set (lastn c (map (record_of s t) es))" for p c s t
    using that set_lastn_subset [of c "map (record_of s t) es"] none
    by (auto simp: record_of_def packet_record_def last_opt_def)
  ultimately show ?thesis
    using hist by (auto simp: history_ok_def list_all_iff dest: GetAll_slots)
qed

theorem decoded_events_carry_no_dns_witness:
  "\<exists>fa st r. run_from_new 0 10 5000 [Event 1 (packet 1 2 5000 53 17 80)] = Inr (fa, st) \<and>
     map_of (fa_flows fa) (getFlowKey (packet 1 2 5000 53 17 80)) = Some r \<and> flow_DNSQueries (st_flows st ! r) = []"
proof -
  let ?e = "packet 1 2 5000 53 17 80" and ?ops = "[Event 1 (packet 1 2 5000 53 17 80)]"
  let ?raw = "\<lparr>raw_TimestampNs = 0, raw_Saddr = 1, raw_Daddr = 2, raw_Sport = 5000, raw_Dport = 53,
     raw_Protocol = 17, raw_Pad1 = 0, raw_Pad2 = 0, raw_Len = 80, raw_CpuId = 0, raw_QueueMapping = 0, raw_Pad3 = 0\<rparr>"
  have ok: "list_all op_ok ?ops" by simp
  obtain fa st where run: "run_from_new 0 10 5000 ?ops = Inr (fa, st)"
    using run_from_new_ok [OF ok] by blast
  have "getFlowKey ?e \<in> dom (map_of (fa_flows fa))"
    using run_from_new_keys [OF ok run] by (simp add: conversations_def group_add_def)
  then obtain r where r: "map_of (fa_flows fa) (getFlowKey ?e) = Some r" by blast
  have "parsePacketEvent (encode_raw ?raw) = Inr ?e"
    using binary_Read_encode [of ?raw "[]"] by (simp add: parsePacketEvent_def expectedSize_def packet_def)
  then have dec: "list_all (\<lambda>o1. \<exists>bytes. parsePacketEvent bytes = Inr (snd o1)) (events_of ?ops)"
    by (auto simp: events_of_def)
  from decoded_events_carry_no_dns [OF ok run r refl dec] run r show ?thesis by blast
qed

end
