(* ===== verification/Transitions.thy ===== *)
theory Transitions
  imports Main
begin

text \<open>
  Labelled transition systems: finite executions with the list of their labels, and the interface of
  an invariant (\<open>traced_invariant\<close>), a predicate on the labels so far and the current state that
  the initial state has and every step keeps. The pipeline and the dashboard interpret it.
\<close>

inductive execution :: "('s \<Rightarrow> 'l \<Rightarrow> 's \<Rightarrow> bool) \<Rightarrow> 's \<Rightarrow> 'l list \<Rightarrow> 's \<Rightarrow> bool"
  for step :: "'s \<Rightarrow> 'l \<Rightarrow> 's \<Rightarrow> bool" and s :: 's where
  start: "execution step s [] s"
| extend: "execution step s ls s' \<Longrightarrow> step s' l s'' \<Longrightarrow> execution step s (ls @ [l]) s''"

lemma execution_single: "step s l s' \<Longrightarrow> execution step s [l] s'"
  using execution.extend [OF execution.start] by fastforce

lemma execution_append:
  assumes "execution step s ls s'" and "execution step s' ls' s''"
  shows "execution step s (ls @ ls') s''"
  using assms(2)
proof (induction rule: execution.induct)
  case start
  then show ?case using assms(1) by simp
next
  case (extend ls' s' l s'')
  then show ?case using execution.extend by fastforce
qed

lemma execution_Cons: "step s l s' \<Longrightarrow> execution step s' ls s'' \<Longrightarrow> execution step s (l # ls) s''"
  using execution_append [OF execution_single] by fastforce

locale traced_invariant =
  fixes initial :: "'s \<Rightarrow> bool"
    and step :: "'s \<Rightarrow> 'l \<Rightarrow> 's \<Rightarrow> bool"
    and inv :: "'l list \<Rightarrow> 's \<Rightarrow> bool"
  assumes initially: "initial s \<Longrightarrow> inv [] s"
    and kept: "inv ls s \<Longrightarrow> step s l s' \<Longrightarrow> inv (ls @ [l]) s'"
begin

lemma always:
  assumes "initial s" and "execution step s ls s'"
  shows "inv ls s'"
  using assms(2)
proof (induction rule: execution.induct)
  case start
  then show ?case using assms(1) by (rule initially)
next
  case (extend ls s' l s'')
  then show ?case using kept by blast
qed

end

end
