(* ===== verification/Pipeline.thy ===== *)
theory Pipeline
  imports Conversations Transitions "HOL-Library.Sublist"
begin

text \<open>
  The goroutines of the program and the channel between them: the read loop and the interface
  watcher (\<^verbatim>\<open>internal/monitor/monitor.go\<close>), the aggregation and timeout loops
  (\<^verbatim>\<open>internal/monitor/aggregator.go\<close>), and the shut-down sequence of \<^verbatim>\<open>cmd/jopil/main.go\<close>, as
  one step relation over their interleavings. A step is one iteration of a loop, or one call of main.
  An iteration of the read loop checks the stop channel at its top and again when it delivers;
  \<open>read_during_close\<close> is the iteration in which main closes the reader in between. What
  the aggregation loop takes from the channel meanwhile it could as well take before the iteration.
\<close>

subsection \<open>State and steps\<close>

text \<open>How far main has got: the dashboard runs; after \<open>aggregator.Stop\<close>; after \<open>reader.Close\<close>; after \<open>cancel\<close>.\<close>

datatype main_pc = Running | AggregatorStopped | ReaderClosed | Finished

record pipeline =
  pl_reader :: EventReader
  pl_agg :: "FlowAggregator \<times> store"
  pl_cancelled :: bool
  pl_main :: main_pc
  pl_reading :: bool
  pl_watching :: bool
  pl_lastUp :: bool
  pl_aggregating :: bool
  pl_sweeping :: bool
  pl_crashed :: bool

datatype label =
    Read time read_result
  | Take time PacketEvent
  | Tick "(string, nat) gmap \<Rightarrow> (string, nat) gmap" time
  | Watch time "ext_error + iface"
  | Return
  | Main

definition stop_seen :: "pipeline \<Rightarrow> bool" where
  "stop_seen s \<longleftrightarrow> fa_stopClosed (fst (pl_agg s)) \<or> pl_cancelled s"

text \<open>One iteration of each loop. Where two cases of a \<open>select\<close> are ready either may be taken.\<close>

text \<open>\<open>readLoop\<close>.\<close>

inductive readLoop_iter :: "pipeline \<Rightarrow> label \<Rightarrow> pipeline \<Rightarrow> bool" where
  read: "pl_reading s \<Longrightarrow> \<not> er_stopClosed (pl_reader s) \<Longrightarrow> readLoop_step now False pick_stop res (pl_reader s) = (er, continue) \<Longrightarrow>
    readLoop_iter s (Read now res) (s\<lparr>pl_reader := er, pl_reading := continue\<rparr>)"
| read_during_close: "pl_reading s \<Longrightarrow> pl_main s = AggregatorStopped \<Longrightarrow>
    \<not> er_stopClosed (pl_reader s) \<Longrightarrow> readLoop_step now True pick_stop res (pl_reader s) = (er, continue) \<Longrightarrow>
    readLoop_iter s (Read now res) (s\<lparr>pl_reader := er, pl_reading := continue, pl_main := ReaderClosed\<rparr>)"
| read_return: "pl_reading s \<Longrightarrow> er_stopClosed (pl_reader s) \<Longrightarrow> readLoop_iter s Return (s\<lparr>pl_reading := False\<rparr>)"

text \<open>\<open>interfaceWatcherLoop\<close>.\<close>

inductive watcher_iter :: "pipeline \<Rightarrow> label \<Rightarrow> pipeline \<Rightarrow> bool" where
  watch: "pl_watching s \<Longrightarrow> watcher_tick now lookup (pl_reader s, pl_lastUp s) = (er, up) \<Longrightarrow>
    watcher_iter s (Watch now lookup) (s\<lparr>pl_reader := er, pl_lastUp := up\<rparr>)"
| watch_return: "pl_watching s \<Longrightarrow> er_stopClosed (pl_reader s) \<Longrightarrow> watcher_iter s Return (s\<lparr>pl_watching := False\<rparr>)"

text \<open>\<open>aggregateLoop\<close>: a panic is recovered from and ends the loop.\<close>

inductive aggregateLoop_iter :: "pipeline \<Rightarrow> label \<Rightarrow> pipeline \<Rightarrow> bool" where
  take_event: "pl_aggregating s \<Longrightarrow> er_eventsChan (pl_reader s) = evt # rest \<Longrightarrow>
    processEvent now evt (pl_agg s) = Inr agg \<Longrightarrow>
    aggregateLoop_iter s (Take now evt) (s\<lparr>pl_reader := (pl_reader s)\<lparr>er_eventsChan := rest\<rparr>, pl_agg := agg\<rparr>)"
| take_panic: "pl_aggregating s \<Longrightarrow> er_eventsChan (pl_reader s) = evt # rest \<Longrightarrow>
    processEvent now evt (pl_agg s) = Inl p \<Longrightarrow>
    aggregateLoop_iter s (Take now evt)
      (s\<lparr>pl_reader := (pl_reader s)\<lparr>er_eventsChan := rest\<rparr>, pl_aggregating := False, pl_crashed := True\<rparr>)"
| aggregate_return: "pl_aggregating s \<Longrightarrow> stop_seen s \<Longrightarrow> aggregateLoop_iter s Return (s\<lparr>pl_aggregating := False\<rparr>)"

text \<open>\<open>timeoutLoop\<close>: a panic ends the program.\<close>

inductive timeoutLoop_iter :: "pipeline \<Rightarrow> label \<Rightarrow> pipeline \<Rightarrow> bool" where
  tick: "pl_sweeping s \<Longrightarrow> range_order visit \<Longrightarrow> closeIdleFlows visit now (pl_agg s) = Inr agg \<Longrightarrow>
    timeoutLoop_iter s (Tick visit now) (s\<lparr>pl_agg := agg\<rparr>)"
| tick_panic: "pl_sweeping s \<Longrightarrow> range_order visit \<Longrightarrow> closeIdleFlows visit now (pl_agg s) = Inl p \<Longrightarrow>
    timeoutLoop_iter s (Tick visit now) (s\<lparr>pl_crashed := True\<rparr>)"
| sweep_return: "pl_sweeping s \<Longrightarrow> stop_seen s \<Longrightarrow> timeoutLoop_iter s Return (s\<lparr>pl_sweeping := False\<rparr>)"

text \<open>The end of \<open>main\<close>: \<open>aggregator.Stop()\<close>, then the deferred \<open>reader.Close()\<close> and \<open>cancel()\<close>.\<close>

inductive main_iter :: "pipeline \<Rightarrow> label \<Rightarrow> pipeline \<Rightarrow> bool" where
  stop: "pl_main s = Running \<Longrightarrow> Stop (fst (pl_agg s)) = Inr fa \<Longrightarrow>
    main_iter s Main (s\<lparr>pl_agg := (fa, snd (pl_agg s)), pl_main := AggregatorStopped\<rparr>)"
| stop_panic: "pl_main s = Running \<Longrightarrow> Stop (fst (pl_agg s)) = Inl p \<Longrightarrow>
    main_iter s Main (s\<lparr>pl_crashed := True\<rparr>)"
| close: "pl_main s = AggregatorStopped \<Longrightarrow> CloseReader (pl_reader s) = Inr (er, effects) \<Longrightarrow>
    main_iter s Main (s\<lparr>pl_reader := er, pl_main := ReaderClosed\<rparr>)"
| close_panic: "pl_main s = AggregatorStopped \<Longrightarrow> CloseReader (pl_reader s) = Inl p \<Longrightarrow>
    main_iter s Main (s\<lparr>pl_crashed := True\<rparr>)"
| cancel: "pl_main s = ReaderClosed \<Longrightarrow> main_iter s Main (s\<lparr>pl_cancelled := True, pl_main := Finished\<rparr>)"

text \<open>The program: an iteration of any loop, or a step of main.\<close>

inductive pipe_step :: "pipeline \<Rightarrow> label \<Rightarrow> pipeline \<Rightarrow> bool" where
  reader: "readLoop_iter s l s' \<Longrightarrow> pipe_step s l s'"
| watcher: "watcher_iter s l s' \<Longrightarrow> pipe_step s l s'"
| aggregator: "aggregateLoop_iter s l s' \<Longrightarrow> pipe_step s l s'"
| sweeper: "timeoutLoop_iter s l s' \<Longrightarrow> pipe_step s l s'"
| main: "main_iter s l s' \<Longrightarrow> pipe_step s l s'"

lemmas pipe_step_rules =
  pipe_step.reader [OF readLoop_iter.read_return] pipe_step.watcher [OF watcher_iter.watch_return]
  pipe_step.aggregator [OF aggregateLoop_iter.aggregate_return] pipe_step.sweeper [OF timeoutLoop_iter.sweep_return]
  pipe_step.main [OF main_iter.stop] pipe_step.main [OF main_iter.close] pipe_step.main [OF main_iter.cancel]

inductive_cases no_read_cases:
  "watcher_iter s (Read now res) s'" "aggregateLoop_iter s (Read now res) s'"
  "timeoutLoop_iter s (Read now res) s'" "main_iter s (Read now res) s'"

inductive_simps read_iff: "readLoop_iter s (Read now res) s'"

inductive_simps step_iff: "pipe_step s l s'"

text \<open>The state when main has started everything.\<close>

definition pipeline_start :: "EventReader \<Rightarrow> time \<Rightarrow> duration \<Rightarrow> int \<Rightarrow> pipeline" where
  "pipeline_start er now timeout bsz =
     \<lparr>pl_reader = er, pl_agg = (NewFlowAggregator now timeout bsz, empty_store), pl_cancelled = False,
      pl_main = Running, pl_reading = True, pl_watching = True, pl_lastUp = True,
      pl_aggregating = True, pl_sweeping = True, pl_crashed = False\<rparr>"

subsection \<open>What a trace says\<close>

text \<open>The events decoded by the read loop, those taken by the aggregator, and the aggregator's operations.\<close>

fun decoded_by :: "label \<Rightarrow> PacketEvent list" where
  "decoded_by (Read now (RawSample bytes)) = (case parsePacketEvent bytes of Inr evt \<Rightarrow> [evt] | Inl _ \<Rightarrow> [])"
| "decoded_by l = []"

definition decoded_in :: "label list \<Rightarrow> PacketEvent list" where
  "decoded_in ls = concat (map decoded_by ls)"

fun op_by :: "label \<Rightarrow> agg_op list" where
  "op_by (Take now evt) = [Event now evt]"
| "op_by (Tick visit now) = [Idle visit now]"
| "op_by l = []"

definition ops_in :: "label list \<Rightarrow> agg_op list" where
  "ops_in ls = concat (map op_by ls)"

definition taken_in :: "label list \<Rightarrow> PacketEvent list" where
  "taken_in ls = map snd (events_of (ops_in ls))"

lemma trace_Nil [simp]: "decoded_in [] = []" "ops_in [] = []" "taken_in [] = []"
  by (simp_all add: decoded_in_def ops_in_def taken_in_def events_of_def)

lemma trace_snoc [simp]:
  "decoded_in (ls @ [l]) = decoded_in ls @ decoded_by l"
  "ops_in (ls @ [l]) = ops_in ls @ op_by l"
  "taken_in (ls @ [l]) = taken_in ls @ map snd (events_of (op_by l))"
  by (simp_all add: decoded_in_def ops_in_def taken_in_def events_of_def)

lemma events_of_op_by [simp]:
  "events_of [] = []" "events_of [Event now evt] = [(now, evt)]" "events_of [Idle visit now] = []"
  by (simp_all add: events_of_def)

subsection \<open>One iteration of the read loop\<close>

lemma readLoop_step_outcome:
  assumes "\<not> er_stopClosed er" and "readLoop_step now during pick_stop res er = (er', continue)"
    and "length (er_eventsChan er) \<le> eventsChanCap"
  shows "er_stopClosed er' = during \<and> length (er_eventsChan er') \<le> eventsChanCap \<and>
    (er_eventsChan er' = er_eventsChan er @ decoded_by (Read now res) \<and>
       er_droppedInUserspace er' = er_droppedInUserspace er \<or>
     er_eventsChan er' = er_eventsChan er \<and> length (decoded_by (Read now res)) = 1 \<and>
       (er_droppedInUserspace er' = er_droppedInUserspace er + 1 \<or>
        er_droppedInUserspace er' = er_droppedInUserspace er \<and> during \<and> \<not> continue))"
proof (cases res)
  case (RawSample bytes)
  show ?thesis
  proof (cases "parsePacketEvent bytes")
    case (Inl err)
    then show ?thesis using assms RawSample by (auto simp: readLoop_step_def Let_def)
  next
    case (Inr evt)
    then show ?thesis
      using assms RawSample by (auto simp: readLoop_step_def Let_def deliver_def split: if_splits)
  qed
qed (use assms in \<open>auto simp: readLoop_step_def Let_def split: if_splits\<close>)

lemma watcher_tick_frame:
  "watcher_tick now lookup (er, up) = (er', up') \<Longrightarrow>
     er_eventsChan er' = er_eventsChan er \<and> er_stopClosed er' = er_stopClosed er \<and>
     er_droppedInUserspace er' = er_droppedInUserspace er"
  by (auto simp: watcher_tick_def Let_def split: sum.splits if_splits)

lemma CloseReader_frame:
  "CloseReader er = Inr (er', effects) \<Longrightarrow> er' = er\<lparr>er_stopClosed := True\<rparr>"
  by (auto simp: CloseReader_def split: if_splits)

subsection \<open>Conservation of events\<close>

text \<open>
  Every decoded event was taken by the aggregator, waits in the channel, was counted as dropped, or was the
  one the read loop held when it saw the stop channel closed.
\<close>

definition conserved :: "label list \<Rightarrow> pipeline \<Rightarrow> bool" where
  "conserved ls s \<longleftrightarrow>
     length (er_eventsChan (pl_reader s)) \<le> eventsChanCap \<and>
     subseq (taken_in ls @ er_eventsChan (pl_reader s)) (decoded_in ls) \<and>
     (\<exists>dropped lost. length (decoded_in ls) =
          length (taken_in ls) + length (er_eventsChan (pl_reader s)) + dropped + lost \<and>
        er_droppedInUserspace (pl_reader s) = of_nat dropped \<and>
        lost \<le> 1 \<and> (lost = 1 \<longrightarrow> \<not> pl_reading s))"

lemma conservedI:
  assumes "length (er_eventsChan (pl_reader s)) \<le> eventsChanCap"
    and "subseq (taken_in ls @ er_eventsChan (pl_reader s)) (decoded_in ls)"
    and "length (decoded_in ls) = length (taken_in ls) + length (er_eventsChan (pl_reader s)) + dropped + lost"
    and "er_droppedInUserspace (pl_reader s) = of_nat dropped"
    and "lost \<le> 1" and "lost = 1 \<longrightarrow> \<not> pl_reading s"
  shows "conserved ls s"
  unfolding conserved_def using assms by blast

lemma conserved_cong:
  assumes "conserved ls s" and "decoded_by l = []" and "map snd (events_of (op_by l)) = []"
    and "er_eventsChan (pl_reader s') = er_eventsChan (pl_reader s)"
    and "er_droppedInUserspace (pl_reader s') = er_droppedInUserspace (pl_reader s)"
    and "pl_reading s' \<Longrightarrow> pl_reading s"
  shows "conserved (ls @ [l]) s'"
  using assms unfolding conserved_def by simp blast

lemma conserved_read:
  assumes inv: "conserved ls s" and go_on: "pl_reading s" "\<not> er_stopClosed (pl_reader s)"
    and step: "readLoop_step now during pick_stop res (pl_reader s) = (er, continue)"
    and s': "pl_reader s' = er" "pl_reading s' = continue"
  shows "conserved (ls @ [Read now res]) s'"
proof -
  let ?d = "decoded_by (Read now res)" and ?chan = "er_eventsChan (pl_reader s)"
  from inv obtain dropped lost where c: "length ?chan \<le> eventsChanCap"
    "subseq (taken_in ls @ ?chan) (decoded_in ls)"
    "length (decoded_in ls) = length (taken_in ls) + length ?chan + dropped + lost"
    "er_droppedInUserspace (pl_reader s) = of_nat dropped" "lost \<le> 1" "lost = 1 \<longrightarrow> \<not> pl_reading s"
    unfolding conserved_def by blast
  then have none: "lost = 0" using go_on by linarith
  from readLoop_step_outcome [OF go_on(2) step c(1)]
  consider (sent) "er_eventsChan er = ?chan @ ?d" "er_droppedInUserspace er = er_droppedInUserspace (pl_reader s)"
    | (full) "er_eventsChan er = ?chan" "length ?d = 1" "er_droppedInUserspace er = er_droppedInUserspace (pl_reader s) + 1"
    | (stopped) "er_eventsChan er = ?chan" "length ?d = 1"
        "er_droppedInUserspace er = er_droppedInUserspace (pl_reader s)" "\<not> continue"
    by blast
  then show ?thesis
  proof cases
    case sent
    have "subseq ((taken_in ls @ ?chan) @ ?d) (decoded_in ls @ ?d)"
      using c(2) by (rule list_emb_append_mono) simp
    then show ?thesis
      using sent c none readLoop_step_outcome [OF go_on(2) step c(1)] s'
      by (intro conservedI [of _ _ dropped 0]) simp_all
  next
    case full
    then show ?thesis
      using full c none s'
      by (intro conservedI [of _ _ "Suc dropped" 0]) (simp_all add: subseq_rev_drop_many)
  next
    case stopped
    then show ?thesis
      using stopped c none s'
      by (intro conservedI [of _ _ dropped 1]) (simp_all add: subseq_rev_drop_many)
  qed
qed

lemma conserved_step:
  assumes inv: "conserved ls s" and step: "pipe_step s l s'"
  shows "conserved (ls @ [l]) s'"
  using step
proof cases
  case reader
  then show ?thesis
  proof cases
    case (read pick_stop res er continue now)
    then show ?thesis using conserved_read [OF inv read(3,4,5)] by simp
  next
    case (read_during_close pick_stop res er continue now)
    then show ?thesis using conserved_read [OF inv read_during_close(3,5,6)] by simp
  qed (intro conserved_cong [OF inv]; simp)
next
  case watcher
  then show ?thesis
  proof cases
    case (watch now lookup er up)
    then show ?thesis using watcher_tick_frame [OF watch(4)] by (intro conserved_cong [OF inv]) simp_all
  qed (intro conserved_cong [OF inv]; simp)
next
  case aggregator
  then show ?thesis
  proof cases
    case (take_event evt rest now agg)
    then show ?thesis using inv unfolding conserved_def by simp
  next
    case (take_panic evt rest now p)
    then show ?thesis using inv unfolding conserved_def by simp
  qed (intro conserved_cong [OF inv]; simp)
next
  case sweeper
  then show ?thesis by cases (intro conserved_cong [OF inv]; simp)+
next
  case main
  then show ?thesis
  proof cases
    case (close er effects)
    then show ?thesis using CloseReader_frame [OF close(4)] by (intro conserved_cong [OF inv]) simp_all
  qed (intro conserved_cong [OF inv]; simp)+
qed

subsection \<open>The aggregator's side\<close>

text \<open>Neither operation looks at the stop channel, which only the loops do.\<close>

definition with_stop :: "bool \<Rightarrow> FlowAggregator \<times> store \<Rightarrow> FlowAggregator \<times> store" where
  "with_stop b = (\<lambda>(fa, st). (fa\<lparr>fa_stopClosed := b\<rparr>, st))"

lemma with_stop_simps [simp]:
  "with_stop b (fa, st) = (fa\<lparr>fa_stopClosed := b\<rparr>, st)"
  "with_stop b (with_stop c s) = with_stop b s"
  "fa_stopClosed (fst (with_stop b s)) = b"
  "snd (with_stop b s) = snd s"
  by (cases s; simp add: with_stop_def)+

lemma stop_update_commute:
  "(fa :: FlowAggregator)\<lparr>fa_flows := m, fa_stopClosed := b\<rparr> = fa\<lparr>fa_stopClosed := b, fa_flows := m\<rparr>"
  "(fa :: FlowAggregator)\<lparr>fa_globalStats := gs, fa_stopClosed := b\<rparr> = fa\<lparr>fa_stopClosed := b, fa_globalStats := gs\<rparr>"
  by (cases fa; simp)+

lemma get_or_create_with_stop:
  "get_or_create now evt (with_stop b (fa, st)) =
     gbind (get_or_create now evt (fa, st)) (\<lambda>(ref, s). Inr (ref, with_stop b s))"
  by (simp add: get_or_create_def Let_def gbind_assoc stop_update_commute split: option.split)

lemma processEvent_with_stop:
  "processEvent now evt (with_stop b (fa, st)) = gbind (processEvent now evt (fa, st)) (\<lambda>s. Inr (with_stop b s))"
proof -
  let ?gs = "(fa_globalStats fa)\<lparr>gs_TotalPackets := gs_TotalPackets (fa_globalStats fa) + 1,
     gs_TotalBytes := gs_TotalBytes (fa_globalStats fa) + ucast (evt_Len evt), gs_LastUpdated := now\<rparr>"
  have swap: "get_or_create now evt (fa\<lparr>fa_stopClosed := b, fa_globalStats := ?gs\<rparr>, st) =
     gbind (get_or_create now evt (fa\<lparr>fa_globalStats := ?gs\<rparr>, st)) (\<lambda>(ref, s). Inr (ref, with_stop b s))"
    using get_or_create_with_stop [of now evt b "fa\<lparr>fa_globalStats := ?gs\<rparr>" st]
    by (simp add: stop_update_commute)
  show ?thesis
    unfolding processEvent_def
    by (cases "parse_event_dns now ''forward'' evt") (simp_all add: Let_def swap gbind_assoc with_stop_def [of b] case_prod_beta)
qed

lemma agg_step_with_stop:
  "agg_step (with_stop b s) op = gbind (agg_step s op) (\<lambda>s'. Inr (with_stop b s'))"
proof (cases op)
  case (Event now evt)
  then show ?thesis using processEvent_with_stop by (cases s) simp
next
  case (Idle visit now)
  then show ?thesis
    by (cases s; cases "idle_loop now (fa_flowTimeout (fst s)) (visit (fa_flows (fst s))) (snd s) []")
       (simp_all add: closeIdleFlows_def case_prod_beta stop_update_commute)
qed

text \<open>
  The aggregator's state is the one its operations lead to from a new aggregator, nothing has
  panicked, and the stop channels are closed as far as main has got.
\<close>

definition aggregated :: "time \<Rightarrow> duration \<Rightarrow> int \<Rightarrow> label list \<Rightarrow> pipeline \<Rightarrow> bool" where
  "aggregated now timeout bsz ls s \<longleftrightarrow>
     list_all op_ok (ops_in ls) \<and> \<not> pl_crashed s \<and>
     (\<exists>agg. run_from_new now timeout bsz (ops_in ls) = Inr agg \<and>
        pl_agg s = with_stop (pl_main s \<noteq> Running) agg) \<and>
     (er_stopClosed (pl_reader s) \<longleftrightarrow> pl_main s \<in> {ReaderClosed, Finished}) \<and>
     (pl_cancelled s \<longleftrightarrow> pl_main s = Finished)"

lemma run_from_new_snoc:
  "run_from_new now timeout bsz (ops @ [op]) = gbind (run_from_new now timeout bsz ops) (\<lambda>agg. agg_step agg op)"
  by (simp add: run_from_new_def gfold_append flip: gbind_assoc) (cases "gfold agg_step (NewFlowAggregator now timeout bsz, empty_store) ops"; simp add: gbind_def split: sum.split)

lemma aggregated_op:
  assumes inv: "aggregated now timeout bsz ls s" and op: "op_ok op"
  shows "\<exists>agg. agg_step (pl_agg s) op = Inr (with_stop (pl_main s \<noteq> Running) agg) \<and>
     run_from_new now timeout bsz (ops_in ls @ [op]) = Inr agg"
proof -
  from inv obtain agg where ok: "list_all op_ok (ops_in ls)"
    and run: "run_from_new now timeout bsz (ops_in ls) = Inr agg"
    and agg: "pl_agg s = with_stop (pl_main s \<noteq> Running) agg"
    by (auto simp: aggregated_def)
  have "list_all op_ok (ops_in ls @ [op])" using ok op by simp
  from run_from_new_ok [OF this, of now timeout bsz] obtain agg' where
    "run_from_new now timeout bsz (ops_in ls @ [op]) = Inr agg'" by blast
  moreover from this have "agg_step agg op = Inr agg'" using run by (simp add: run_from_new_snoc)
  ultimately show ?thesis by (intro exI [of _ agg']) (simp add: agg agg_step_with_stop)
qed

lemma aggregated_cong:
  assumes "aggregated now timeout bsz ls s" and "op_by l = []"
    and "pl_agg s' = pl_agg s" and "pl_main s' = pl_main s" and "pl_crashed s' = pl_crashed s"
    and "er_stopClosed (pl_reader s') = er_stopClosed (pl_reader s)" and "pl_cancelled s' = pl_cancelled s"
  shows "aggregated now timeout bsz (ls @ [l]) s'"
  using assms by (simp add: aggregated_def)

lemma readLoop_step_stop:
  "\<not> er_stopClosed er \<Longrightarrow> readLoop_step now during pick_stop res er = (er', continue) \<Longrightarrow>
     er_stopClosed er' = during"
  by (auto simp: readLoop_step_def deliver_def Let_def split: read_result.splits sum.splits if_splits)

lemma aggregated_step:
  assumes inv: "aggregated now timeout bsz ls s" and step: "pipe_step s l s'"
  shows "aggregated now timeout bsz (ls @ [l]) s'"
  using step
proof cases
  case reader
  then show ?thesis
  proof cases
    case (read pick_stop res er continue t)
    then show ?thesis using readLoop_step_stop [OF read(4,5)] by (intro aggregated_cong [OF inv]) simp_all
  next
    case (read_during_close pick_stop res er continue t)
    then show ?thesis using inv readLoop_step_stop [OF read_during_close(5,6)] by (auto simp: aggregated_def)
  qed (intro aggregated_cong [OF inv]; simp)
next
  case watcher
  then show ?thesis
  proof cases
    case (watch t lookup er up)
    then show ?thesis using watcher_tick_frame [OF watch(4)] by (intro aggregated_cong [OF inv]) simp_all
  qed (intro aggregated_cong [OF inv]; simp)
next
  case aggregator
  then show ?thesis
  proof cases
    case (take_event evt rest t agg)
    then show ?thesis using inv aggregated_op [OF inv, of "Event t evt"] by (auto simp: aggregated_def)
  next
    case (take_panic evt rest t p)
    then show ?thesis using aggregated_op [OF inv, of "Event t evt"] by auto
  qed (intro aggregated_cong [OF inv]; simp)
next
  case sweeper
  then show ?thesis
  proof cases
    case (tick visit t agg)
    then show ?thesis using inv aggregated_op [OF inv, of "Idle visit t"] by (auto simp: aggregated_def)
  next
    case (tick_panic visit t p)
    then show ?thesis using aggregated_op [OF inv, of "Idle visit t"] by auto
  qed (intro aggregated_cong [OF inv]; simp)
next
  case main
  then show ?thesis
    using inv
    by cases (auto simp: aggregated_def Stop_def CloseReader_def with_stop_def split: if_splits prod.splits)
qed

subsection \<open>The invariants of all executions\<close>

text \<open>A reader as \<open>NewEventReader\<close> returns it, before anything was read.\<close>

definition fresh_reader :: "EventReader \<Rightarrow> bool" where
  "fresh_reader er \<longleftrightarrow> er_eventsChan er = [] \<and> \<not> er_stopClosed er \<and> er_droppedInUserspace er = 0"

definition pipeline_initial :: "time \<Rightarrow> duration \<Rightarrow> int \<Rightarrow> pipeline \<Rightarrow> bool" where
  "pipeline_initial now timeout bsz s \<longleftrightarrow> (\<exists>er. fresh_reader er \<and> s = pipeline_start er now timeout bsz)"

interpretation conservation: traced_invariant "pipeline_initial now timeout bsz" pipe_step conserved
  for now timeout bsz
proof
  show "conserved [] s" if "pipeline_initial now timeout bsz s" for s
    using that by (auto simp: conserved_def pipeline_initial_def fresh_reader_def pipeline_start_def)
qed (rule conserved_step)

interpretation aggregation: traced_invariant "pipeline_initial now timeout bsz" pipe_step
    "aggregated now timeout bsz"
  for now timeout bsz
proof
  show "aggregated now timeout bsz [] s" if "pipeline_initial now timeout bsz s" for s
    using that
    by (auto simp: aggregated_def pipeline_initial_def fresh_reader_def pipeline_start_def run_from_new_def
        with_stop_def NewFlowAggregator_def Let_def)
qed (rule aggregated_step)

lemma pipeline_initialI: "fresh_reader er \<Longrightarrow> pipeline_initial now timeout bsz (pipeline_start er now timeout bsz)"
  by (auto simp: pipeline_initial_def)

text \<open>The way from any state to the end of all loops.\<close>

lemma return_all:
  assumes "er_stopClosed (pl_reader s)" and "stop_seen s"
  shows "\<exists>ls s'. execution pipe_step s ls s' \<and> set ls \<subseteq> {Return} \<and> length ls \<le> 4 \<and> pl_crashed s' = pl_crashed s \<and> pl_main s' = pl_main s \<and>
     \<not> pl_reading s' \<and> \<not> pl_watching s' \<and> \<not> pl_aggregating s' \<and> \<not> pl_sweeping s'"
proof -
  define s1 where "s1 = s\<lparr>pl_reading := False\<rparr>"
  define s2 where "s2 = s1\<lparr>pl_watching := False\<rparr>"
  define s3 where "s3 = s2\<lparr>pl_aggregating := False\<rparr>"
  define s4 where "s4 = s3\<lparr>pl_sweeping := False\<rparr>"
  have seen: "stop_seen s1" "stop_seen s2" "stop_seen s3"
    using assms(2) by (simp_all add: stop_seen_def s1_def s2_def s3_def)
  have skip: "\<exists>ls. execution pipe_step a ls b \<and> set ls \<subseteq> {Return} \<and> length ls \<le> 1"
    if "a = b \<or> pipe_step a Return b" for a b
    using that by (auto intro: exI [of _ "[]"] exI [of _ "[Return]"] execution.start execution_single)
  have "\<exists>ls. execution pipe_step s ls s1 \<and> set ls \<subseteq> {Return} \<and> length ls \<le> 1"
    by (rule skip) (cases "pl_reading s"; simp add: s1_def pipe_step_rules assms)
  moreover have "\<exists>ls. execution pipe_step s1 ls s2 \<and> set ls \<subseteq> {Return} \<and> length ls \<le> 1"
    by (rule skip) (cases "pl_watching s1"; simp add: s2_def pipe_step_rules assms s1_def)
  moreover have "\<exists>ls. execution pipe_step s2 ls s3 \<and> set ls \<subseteq> {Return} \<and> length ls \<le> 1"
    using seen by (intro skip) (cases "pl_aggregating s2"; simp add: s3_def pipe_step_rules)
  moreover have "\<exists>ls. execution pipe_step s3 ls s4 \<and> set ls \<subseteq> {Return} \<and> length ls \<le> 1"
    using seen by (intro skip) (cases "pl_sweeping s3"; simp add: s4_def pipe_step_rules)
  ultimately obtain l1 l2 l3 l4 where
    ex: "execution pipe_step s l1 s1" "execution pipe_step s1 l2 s2"
      "execution pipe_step s2 l3 s3" "execution pipe_step s3 l4 s4" and
    sz: "set l1 \<subseteq> {Return}" "set l2 \<subseteq> {Return}" "set l3 \<subseteq> {Return}" "set l4 \<subseteq> {Return}"
      "length l1 \<le> 1" "length l2 \<le> 1" "length l3 \<le> 1" "length l4 \<le> 1" by auto
  have "execution pipe_step s (l1 @ l2 @ l3 @ l4) s4"
    using ex by (blast intro: execution_append)
  then show ?thesis
    using sz by (intro exI [of _ "l1 @ l2 @ l3 @ l4"] exI [of _ s4])
      (simp add: s4_def s3_def s2_def s1_def)
qed

lemma main_finishes:
  assumes "aggregated now timeout bsz ls s"
  shows "\<exists>ls' s'. execution pipe_step s ls' s' \<and> set ls' \<subseteq> {Main} \<and> length ls' \<le> 3 \<and>
     pl_main s' = Finished \<and> aggregated now timeout bsz (ls @ ls') s'"
proof -
  have cancel: "\<exists>ls' s'. execution pipe_step s ls' s' \<and> set ls' \<subseteq> {Main} \<and> length ls' \<le> 1 \<and>
     pl_main s' = Finished" if "pl_main s \<in> {ReaderClosed, Finished}" for s
  proof (cases "pl_main s = Finished")
    case True
    then show ?thesis using execution.start [of pipe_step s] by fastforce
  next
    case False
    then have "pl_main s = ReaderClosed" using that by simp
    then have "execution pipe_step s [Main] (s\<lparr>pl_cancelled := True, pl_main := Finished\<rparr>)"
      by (intro execution_single pipe_step_rules(7))
    then show ?thesis by (intro exI [of _ "[Main]"] exI) (rule conjI, assumption, simp)
  qed
  have close: "\<exists>ls' s'. execution pipe_step s ls' s' \<and> set ls' \<subseteq> {Main} \<and> length ls' \<le> 2 \<and>
     pl_main s' = Finished" if "aggregated now timeout bsz ls s" "pl_main s \<noteq> Running" for ls s
  proof (cases "pl_main s = AggregatorStopped")
    case True
    then have "\<not> er_stopClosed (pl_reader s)" using that by (simp add: aggregated_def)
    then obtain er effects where "CloseReader (pl_reader s) = Inr (er, effects)"
      by (simp add: CloseReader_def)
    from pipe_step_rules(6) [OF True this]
    have step: "pipe_step s Main (s\<lparr>pl_reader := er, pl_main := ReaderClosed\<rparr>)" .
    obtain ls' s' where "execution pipe_step (s\<lparr>pl_reader := er, pl_main := ReaderClosed\<rparr>) ls' s'"
      "set ls' \<subseteq> {Main}" "length ls' \<le> 1" "pl_main s' = Finished"
      using cancel [of "s\<lparr>pl_reader := er, pl_main := ReaderClosed\<rparr>"] by auto
    then show ?thesis
      using execution_Cons [of pipe_step, OF step] by (intro exI [of _ "Main # ls'"] exI [of _ s']) simp
  next
    case False
    then have "pl_main s \<in> {ReaderClosed, Finished}" using that(2) by (cases "pl_main s") simp_all
    from cancel [OF this] show ?thesis by fastforce
  qed
  have "\<exists>ls' s'. execution pipe_step s ls' s' \<and> set ls' \<subseteq> {Main} \<and> length ls' \<le> 3 \<and> pl_main s' = Finished"
  proof (cases "pl_main s = Running")
    case True
    then have "\<not> fa_stopClosed (fst (pl_agg s))" using assms by (auto simp: aggregated_def)
    then obtain fa where "Stop (fst (pl_agg s)) = Inr fa" by (simp add: Stop_def)
    from pipe_step_rules(5) [OF True this]
    have step: "pipe_step s Main (s\<lparr>pl_agg := (fa, snd (pl_agg s)), pl_main := AggregatorStopped\<rparr>)" .
    obtain ls' s' where "execution pipe_step (s\<lparr>pl_agg := (fa, snd (pl_agg s)), pl_main := AggregatorStopped\<rparr>) ls' s'"
      "set ls' \<subseteq> {Main}" "length ls' \<le> 2" "pl_main s' = Finished"
      using close [OF aggregated_step [OF assms step]] by auto
    then show ?thesis
      using execution_Cons [of pipe_step, OF step] by (intro exI [of _ "Main # ls'"] exI [of _ s']) simp
  next
    case False
    from close [OF assms this] show ?thesis by fastforce
  qed
  then obtain ls' s' where ex: "execution pipe_step s ls' s'" "set ls' \<subseteq> {Main}" "length ls' \<le> 3" "pl_main s' = Finished"
    by blast
  from ex(1) have "aggregated now timeout bsz (ls @ ls') s'"
  proof (induction rule: execution.induct)
    case start
    then show ?case using assms by simp
  next
    case (extend ls' s' l s'')
    then show ?case using aggregated_step [of now timeout bsz "ls @ ls'" s' l s''] by simp
  qed
  with ex show ?thesis by blast
qed

subsection \<open>Properties of the pipeline\<close>

text \<open>
  C2: No event is lost in silence and none is reordered. In every execution, whatever the interleaving,
  the channel never holds more than 10000 events; the events the aggregator has taken, followed by those that
  wait in the channel, are the decoded ones in their order with some left out; and exactly as
  many are left out as the drop counter says, plus at most one event that the read loop
  held when it saw the reader closed. If nothing was dropped or abandoned, nothing is left out.
\<close>

theorem pipeline_conserves_events:
  assumes "fresh_reader er" and "execution pipe_step (pipeline_start er now timeout bsz) ls s"
  shows "length (er_eventsChan (pl_reader s)) \<le> 10000 \<and>
     subseq (taken_in ls @ er_eventsChan (pl_reader s)) (decoded_in ls) \<and>
     (\<exists>dropped abandoned. length (decoded_in ls) =
        length (taken_in ls @ er_eventsChan (pl_reader s)) + dropped + abandoned \<and>
      er_droppedInUserspace (pl_reader s) = of_nat dropped \<and> abandoned \<le> 1 \<and>
      (pl_reading s \<longrightarrow> abandoned = 0) \<and>
      (dropped + abandoned = 0 \<longrightarrow> decoded_in ls = taken_in ls @ er_eventsChan (pl_reader s)))"
proof -
  have c: "conserved ls s" by (rule conservation.always [OF pipeline_initialI [OF assms(1)] assms(2)])
  then obtain d a where d: "length (er_eventsChan (pl_reader s)) \<le> 10000"
    "subseq (taken_in ls @ er_eventsChan (pl_reader s)) (decoded_in ls)"
    "length (decoded_in ls) = length (taken_in ls @ er_eventsChan (pl_reader s)) + d + a"
    "er_droppedInUserspace (pl_reader s) = of_nat d" "a \<le> 1" "a = 1 \<longrightarrow> \<not> pl_reading s"
    unfolding conserved_def eventsChanCap_def by auto
  then have "pl_reading s \<longrightarrow> a = 0" by linarith
  moreover have "d + a = 0 \<longrightarrow> decoded_in ls = taken_in ls @ er_eventsChan (pl_reader s)"
    using d(2,3) subseq_same_length [OF d(2)] by auto
  ultimately show ?thesis using d by blast
qed

text \<open>A concrete execution: one sample is read, decoded, delivered and processed.\<close>

definition demo_reader :: EventReader where
  "demo_reader = \<lparr>er_objs = True, er_xdpLink = True, er_ringReader = True, er_eventsChan = [], er_stopClosed = False,
      er_iface = \<lparr>if_name = ''eth0'', if_index = 1, if_flags = 1\<rparr>, er_verbose = False,
      er_droppedInUserspace = 0, er_Status = \<lparr>sl_messages = [], sl_maxSize = 100\<rparr>\<rparr>"

definition demo_bytes :: "u8 list" where
  "demo_bytes = encode_raw \<lparr>raw_TimestampNs = 0, raw_Saddr = 1, raw_Daddr = 2, raw_Sport = 5000, raw_Dport = 53,
     raw_Protocol = 17, raw_Pad1 = 0, raw_Pad2 = 0, raw_Len = 80, raw_CpuId = 0, raw_QueueMapping = 0, raw_Pad3 = 0\<rparr>"

abbreviation demo_labels :: "label list" where
  "demo_labels \<equiv> [Read 1 (RawSample demo_bytes), Take 2 (packet 1 2 5000 53 17 80)]"

lemma demo_decodes: "parsePacketEvent demo_bytes = Inr (packet 1 2 5000 53 17 80)"
  using binary_Read_encode [of _ "[]"]
  by (simp add: parsePacketEvent_def expectedSize_def packet_def demo_bytes_def)

lemma demo_fresh [simp]: "fresh_reader demo_reader"
  by (simp add: fresh_reader_def demo_reader_def)

lemma demo_execution:
  "\<exists>s. execution pipe_step (pipeline_start demo_reader 0 10 5000) demo_labels s \<and>
     er_eventsChan (pl_reader s) = [] \<and> er_droppedInUserspace (pl_reader s) = 0 \<and> pl_reading s"
proof -
  let ?e = "packet 1 2 5000 53 17 80" and ?s0 = "pipeline_start demo_reader 0 10 5000"
  let ?er1 = "demo_reader\<lparr>er_eventsChan := [?e]\<rparr>"
  let ?s1 = "?s0\<lparr>pl_reader := ?er1, pl_reading := True\<rparr>"
  have "readLoop_step 1 False False (RawSample demo_bytes) (pl_reader ?s0) = (?er1, True)"
    by (simp add: readLoop_step_def demo_decodes deliver_def demo_reader_def pipeline_start_def eventsChanCap_def)
  then have s1: "pipe_step ?s0 (Read 1 (RawSample demo_bytes)) ?s1"
    by (intro pipe_step.reader readLoop_iter.read) (simp_all add: pipeline_start_def demo_reader_def)
  then have ex1: "execution pipe_step ?s0 [Read 1 (RawSample demo_bytes)] ?s1" by (rule execution_single)
  have "aggregated 0 10 5000 [Read 1 (RawSample demo_bytes)] ?s1"
    by (rule aggregation.always [OF pipeline_initialI [OF demo_fresh] ex1])
  from aggregated_op [OF this, of "Event 2 ?e"] obtain agg where
    agg: "processEvent 2 ?e (pl_agg ?s1) = Inr agg" by auto
  have "pipe_step ?s1 (Take 2 ?e) (?s1\<lparr>pl_reader := (pl_reader ?s1)\<lparr>er_eventsChan := []\<rparr>, pl_agg := agg\<rparr>)"
    by (rule pipe_step.aggregator [OF aggregateLoop_iter.take_event [OF _ _ agg]]) (simp_all add: pipeline_start_def)
  then have "execution pipe_step ?s1 [Take 2 ?e] (?s1\<lparr>pl_reader := (pl_reader ?s1)\<lparr>er_eventsChan := []\<rparr>, pl_agg := agg\<rparr>)"
    by (rule execution_single)
  from execution_Cons [of pipe_step, OF s1 this] show ?thesis
    by (intro exI [of _ "?s1\<lparr>pl_reader := (pl_reader ?s1)\<lparr>er_eventsChan := []\<rparr>, pl_agg := agg\<rparr>"])
      (simp add: demo_reader_def)
qed

theorem pipeline_conserves_events_witness:
  "\<exists>s. execution pipe_step (pipeline_start demo_reader 0 10 5000) demo_labels s \<and>
     decoded_in demo_labels = taken_in demo_labels @ er_eventsChan (pl_reader s)"
proof -
  obtain s where s: "execution pipe_step (pipeline_start demo_reader 0 10 5000) demo_labels s"
    "er_eventsChan (pl_reader s) = []" using demo_execution by blast
  have len: "length (decoded_in demo_labels) = 1" "length (taken_in demo_labels) = 1"
    by (simp_all add: decoded_in_def taken_in_def ops_in_def demo_decodes)
  from pipeline_conserves_events [OF demo_fresh s(1)] show ?thesis
    using s len by (intro exI [of _ s]) auto
qed

text \<open>
  C3: The running goroutines are the aggregator specification. In every execution of the four loops and \<open>main\<close> (the dashboard
  is not among them) nothing panics, and the aggregator is in
  the state that the events it took and the sweeps of the timeout loop lead to from a new
  one, in their order; so all that is said of flows after a run holds of it. The packet
  total it reports is the number of events taken from the channel.
\<close>

theorem pipeline_aggregates:
  assumes "fresh_reader er" and "execution pipe_step (pipeline_start er now timeout bsz) ls s"
  shows "\<not> pl_crashed s \<and> list_all op_ok (ops_in ls) \<and>
     (\<exists>fa st. run_from_new now timeout bsz (ops_in ls) = Inr (fa, st) \<and>
        pl_agg s = (fa\<lparr>fa_stopClosed := (pl_main s \<noteq> Running)\<rparr>, st)) \<and>
     glob_TotalPackets (GetGlobalStats t (fst (pl_agg s))) = of_nat (length (taken_in ls))"
proof -
  from aggregation.always [OF pipeline_initialI [OF assms(1)] assms(2)]
  have inv: "aggregated now timeout bsz ls s" .
  then obtain fa st where ok: "list_all op_ok (ops_in ls)"
    and run: "run_from_new now timeout bsz (ops_in ls) = Inr (fa, st)"
    and agg: "pl_agg s = (fa\<lparr>fa_stopClosed := (pl_main s \<noteq> Running)\<rparr>, st)"
    by (auto simp: aggregated_def with_stop_def)
  from run_from_new_keys [OF ok run] have "stats_ok (events_of (ops_in ls)) (fa_globalStats fa)" by blast
  then show ?thesis
    using inv ok run agg by (simp add: aggregated_def GetGlobalStats_def stats_ok_def taken_in_def Let_def)
qed

theorem pipeline_aggregates_witness:
  "\<exists>s. execution pipe_step (pipeline_start demo_reader 0 10 5000) demo_labels s \<and>
     \<not> pl_crashed s \<and> glob_TotalPackets (GetGlobalStats 5 (fst (pl_agg s))) = 1"
proof -
  obtain s where s: "execution pipe_step (pipeline_start demo_reader 0 10 5000) demo_labels s"
    using demo_execution by blast
  from pipeline_aggregates [OF demo_fresh s, of 5] s show ?thesis
    by (intro exI [of _ s]) (simp add: taken_in_def ops_in_def)
qed

text \<open>
  C4: The program can always shut down. From every reachable state main can stop the aggregator, close the
  reader and cancel, each once and without a panic, after which all four loops can return: at
  most seven steps in all, and none of them waits for an event. Once the reader
  is closed no further sample is read.
\<close>

theorem pipeline_shuts_down:
  assumes "fresh_reader er" and "execution pipe_step (pipeline_start er now timeout bsz) ls s"
  shows "(\<exists>ls' s'. execution pipe_step s ls' s' \<and> set ls' \<subseteq> {Main, Return} \<and> length ls' \<le> 7 \<and>
       pl_main s' = Finished \<and> \<not> pl_crashed s' \<and> \<not> pl_reading s' \<and> \<not> pl_watching s' \<and>
       \<not> pl_aggregating s' \<and> \<not> pl_sweeping s') \<and>
     (pl_main s \<in> {ReaderClosed, Finished} \<longrightarrow> (\<forall>t res s'. \<not> pipe_step s (Read t res) s'))"
proof -
  have inv: "aggregated now timeout bsz ls s"
    by (rule aggregation.always [OF pipeline_initialI [OF assms(1)] assms(2)])
  from main_finishes [OF inv] obtain l1 s1 where
    m: "execution pipe_step s l1 s1" "set l1 \<subseteq> {Main}" "length l1 \<le> 3" "pl_main s1 = Finished"
      "aggregated now timeout bsz (ls @ l1) s1" by blast
  then have closed: "er_stopClosed (pl_reader s1)" "stop_seen s1" "\<not> pl_crashed s1"
    by (auto simp: aggregated_def stop_seen_def)
  from return_all [OF closed(1,2)] obtain l2 s2 where
    r: "execution pipe_step s1 l2 s2" "set l2 \<subseteq> {Return}" "length l2 \<le> 4" "pl_crashed s2 = pl_crashed s1"
      "\<not> pl_reading s2" "\<not> pl_watching s2" "\<not> pl_aggregating s2" "\<not> pl_sweeping s2"
      "pl_main s2 = pl_main s1" by blast
  have "execution pipe_step s (l1 @ l2) s2" by (rule execution_append [OF m(1) r(1)])
  moreover have "\<not> pipe_step s (Read t res) s'" if "pl_main s \<in> {ReaderClosed, Finished}" for t res s'
    using inv that by (auto simp: aggregated_def step_iff read_iff elim: no_read_cases)
  ultimately show ?thesis
    using m r closed(3) by (intro conjI exI [of _ "l1 @ l2"] exI [of _ s2]) auto
qed

theorem pipeline_shuts_down_witness:
  "\<exists>s ls' s'. execution pipe_step (pipeline_start demo_reader 0 10 5000) demo_labels s \<and>
     execution pipe_step s ls' s' \<and> length ls' \<le> 7 \<and> pl_main s' = Finished \<and> \<not> pl_reading s'"
proof -
  obtain s where s: "execution pipe_step (pipeline_start demo_reader 0 10 5000) demo_labels s"
    using demo_execution by blast
  from pipeline_shuts_down [OF demo_fresh s] s show ?thesis by blast
qed

end
