(* ===== verification/Startup.thy ===== *)
theory Startup
  imports Pipeline
begin

text \<open>
  \<^verbatim>\<open>cmd/jopil/main.go\<close> up to the start of the goroutines: the options, the choice of the log's destination, the check for
  root, the creation of the reader and of the aggregator. The options are what \<open>flag.Parse\<close> has read. The
  prefix of date and time that \<open>log\<close> writes before its lines is left out. (\<^const>\<open>main_iter\<close> is
  the end of \<open>main\<close>.)
\<close>

subsection \<open>Options and outcome\<close>

record options =
  opt_iface :: string
  opt_timeout :: duration
  opt_log :: string
  opt_verbose :: bool
  opt_packetBuffer :: int
  opt_help :: bool
  opt_version :: bool

text \<open>The machine: the interfaces and the kernel, the effective user, opening the log file, the flags' usage text, quoting.\<close>

record machine =
  m_os :: os
  m_euid :: int
  m_open_log :: "string \<Rightarrow> ext_error option"
  m_usage :: string
  m_quote :: "string \<Rightarrow> string"
  m_now :: time

datatype written = Stdout string | Stderr string | LogFile string string

datatype log_dest = ToFile string | Discarded

text \<open>The program has exited, or runs; with what it wrote and the handles it opened and closed.\<close>

datatype outcome = Exit int "written list" "effect list" | Started pipeline "written list" "effect list"

definition log_line :: "log_dest \<Rightarrow> string \<Rightarrow> written list" where
  "log_line dest line = (case dest of ToFile f \<Rightarrow> [LogFile f line] | Discarded \<Rightarrow> [])"

text \<open>The text of the errors \<open>NewEventReader\<close> returns.\<close>

fun reader_error_text :: "(string \<Rightarrow> string) \<Rightarrow> reader_error \<Rightarrow> string" where
  "reader_error_text quote (RemoveMemlockFailed err) = ''remove memlock: '' @ err"
| "reader_error_text quote (InterfaceNotFound name err) = ''interface '' @ quote name @ '' not found: '' @ err"
| "reader_error_text quote (AutoDetectFailed err) = ''auto-detect interface: '' @ reader_error_text quote err"
| "reader_error_text quote (ListInterfacesFailed err) = err"
| "reader_error_text quote NoSuitableInterface = ''no suitable network interface found''"
| "reader_error_text quote (LoadObjectsFailed err) = ''load eBPF objects: '' @ err"
| "reader_error_text quote (AttachXDPFailed name err) = ''attach XDP to '' @ name @ '': '' @ err"
| "reader_error_text quote (OpenRingBufferFailed err) = ''open ring buffer: '' @ err"

subsection \<open>Starting\<close>

text \<open>Logging goes to the file that is named, or nowhere.\<close>

definition setup_log :: "options \<Rightarrow> machine \<Rightarrow> ext_error + log_dest" where
  "setup_log opts m =
     (if opt_log opts \<noteq> '''' then
        (case m_open_log m (opt_log opts) of Some err \<Rightarrow> Inl err | None \<Rightarrow> Inr (ToFile (opt_log opts)))
      else Inr Discarded)"

definition clamp_packetBuffer :: "int \<Rightarrow> int" where
  "clamp_packetBuffer n =
     (let n1 = (if n < 1000 then 1000 else n) in if n1 > 50000 then 50000 else n1)"

definition start_monitoring :: "options \<Rightarrow> machine \<Rightarrow> log_dest \<Rightarrow> outcome" where
  "start_monitoring opts m dest =
     (let hello = log_line dest (''[Main] Starting JOPIL '' @ em_dash @ '' Journey of Packets in Linux Kernel'') in
      case NewEventReader (m_os m) (opt_iface opts) (opt_verbose opts) of
        (Inl err, effects) \<Rightarrow>
          Exit 1 (hello @ log_line dest (''[Main] Failed to initialize XDP: '' @ reader_error_text (m_quote m) err)) effects
      | (Inr er, effects) \<Rightarrow>
          Started (pipeline_start er (m_now m) (opt_timeout opts) (clamp_packetBuffer (opt_packetBuffer opts)))
            (hello @ [Stderr (''[JOPIL] XDP attached to '' @ if_name (er_iface er) @ '' '' @ em_dash @ '' starting TUI'')]) effects)"

definition main_startup :: "options \<Rightarrow> machine \<Rightarrow> outcome" where
  "main_startup opts m =
     (if opt_help opts then Exit 0 [Stderr (m_usage m)] []
      else if opt_version opts then Exit 0 [Stdout ''jopil v0.2.0''] []
      else case setup_log opts m of
        Inl err \<Rightarrow> Exit 1 [Stderr (''Could not open log file: '' @ err)] []
      | Inr dest \<Rightarrow>
          if m_euid m \<noteq> 0
          then Exit 1 [Stderr (''ERROR: JOPIL requires root privileges for XDP eBPF.'' @ [CHR 0x0A] @ ''Usage: sudo ./jopil'')] []
          else start_monitoring opts m dest)"

subsection \<open>Properties\<close>

lemma failed_reader_releases:
  "NewEventReader os name verbose = (Inl err, effects) \<Longrightarrow> open_handles [] effects = Some []"
  by (auto simp: NewEventReader_def Let_def split: option.splits sum.splits)

lemma new_reader_handles:
  "NewEventReader os name verbose = (Inr er, effects) \<Longrightarrow> open_handles [] effects = Some [RingReader, XdpLink, Objs]"
  by (auto simp: NewEventReader_def Let_def split: option.splits sum.splits)

lemma clamp_packetBuffer_twice:
  "fa_packetBufferSize (NewFlowAggregator now timeout (clamp_packetBuffer n)) = clamp_packetBuffer n"
  "1000 \<le> clamp_packetBuffer n" "clamp_packetBuffer n \<le> 50000"
  by (simp_all add: NewFlowAggregator_def clamp_packetBuffer_def Let_def)

text \<open>
  C36: How the program starts, and fails to. It runs exactly when neither help nor version is asked for, the log file (if one is named) can be opened, the user is root
  and the reader can be created; then it runs with that reader, all three handles are open and the histories hold between 1000 and 50000 packets, the limit of the
  aggregator changing nothing. Otherwise it exits with every handle closed again: with status 0 when help or version is asked for, with status 1 in
  every other case. It exits without writing a word exactly when only the creation of the reader has failed and no log file was named,
  because its messages go to a discarded log.
\<close>

theorem startup_outcomes:
  "((\<exists>p outs effects. main_startup opts m = Started p outs effects) \<longleftrightarrow>
      \<not> opt_help opts \<and> \<not> opt_version opts \<and> m_euid m = 0 \<and> (opt_log opts = '''' \<or> m_open_log m (opt_log opts) = None) \<and>
      (\<exists>er effects. NewEventReader (m_os m) (opt_iface opts) (opt_verbose opts) = (Inr er, effects))) \<and>
   (case main_startup opts m of
     Started p outs effects \<Rightarrow>
       (\<exists>er. NewEventReader (m_os m) (opt_iface opts) (opt_verbose opts) = (Inr er, effects) \<and> pl_reader p = er) \<and>
       open_handles [] effects = Some [RingReader, XdpLink, Objs] \<and>
       fa_packetBufferSize (fst (pl_agg p)) = clamp_packetBuffer (opt_packetBuffer opts) \<and>
       1000 \<le> fa_packetBufferSize (fst (pl_agg p)) \<and> fa_packetBufferSize (fst (pl_agg p)) \<le> 50000
   | Exit code outs effects \<Rightarrow>
       open_handles [] effects = Some [] \<and>
       code = (if opt_help opts \<or> opt_version opts then 0 else 1) \<and>
       (outs = [] \<longleftrightarrow> \<not> opt_help opts \<and> \<not> opt_version opts \<and> opt_log opts = '''' \<and> m_euid m = 0))"
proof (cases "\<not> opt_help opts \<and> \<not> opt_version opts \<and> m_euid m = 0 \<and> (opt_log opts = '''' \<or> m_open_log m (opt_log opts) = None)")
  case True
  define dest where "dest = (if opt_log opts \<noteq> '''' then ToFile (opt_log opts) else Discarded)"
  have run: "main_startup opts m = start_monitoring opts m dest"
    using True by (auto simp: main_startup_def setup_log_def dest_def)
  obtain res effects where new: "NewEventReader (m_os m) (opt_iface opts) (opt_verbose opts) = (res, effects)" by fastforce
  show ?thesis
  proof (cases res)
    case (Inl err)
    then show ?thesis
      using True new failed_reader_releases [OF new [unfolded Inl]]
      by (simp add: run start_monitoring_def Let_def log_line_def dest_def)
  next
    case (Inr er)
    then show ?thesis
      using True new new_reader_handles [OF new [unfolded Inr]] clamp_packetBuffer_twice
      by (simp add: run start_monitoring_def Let_def pipeline_start_def)
  qed
next
  case False
  then show ?thesis by (auto simp: main_startup_def setup_log_def split: option.split)
qed

text \<open>Root on a machine where the reader cannot lift the limit on locked memory.\<close>

theorem startup_outcomes_witness:
  "\<exists>outs effects. main_startup
     \<lparr>opt_iface = ''eth0'', opt_timeout = 300, opt_log = '''', opt_verbose = False, opt_packetBuffer = 5000,
      opt_help = False, opt_version = False\<rparr>
     \<lparr>m_os = \<lparr>os_RemoveMemlock = Some ''denied'', os_InterfaceByName = (\<lambda>n. Inl ''none''), os_Interfaces = Inr [],
        os_loadBpfObjects = None, os_AttachXDP = (\<lambda>_. None), os_NewRingReader = None, os_now = 0\<rparr>,
      m_euid = 0, m_open_log = (\<lambda>f. None), m_usage = '''', m_quote = (\<lambda>s. s), m_now = 0\<rparr> = Exit 1 outs effects \<and>
     outs = [] \<and> open_handles [] effects = Some []"
  (is "\<exists>outs effects. main_startup ?opts ?m = _ \<and> _")
proof -
  have "\<exists>outs effects. main_startup ?opts ?m = Exit 1 outs effects"
    by (simp add: main_startup_def setup_log_def start_monitoring_def NewEventReader_def)
  then obtain outs effects where "main_startup ?opts ?m = Exit 1 outs effects" by blast
  then show ?thesis using startup_outcomes [of ?opts ?m] by simp
qed

end
