(* ===== verification/Dashboard.thy ===== *)
theory Dashboard
  imports Aggregator Reader "HOL-Library.Signed_Division"
begin

text \<open>
  \<^verbatim>\<open>internal/tui/dashboard.go\<close>: the state of the dashboard and the handlers that change it. (The widgets
  that render it are in \<open>Widgets\<close> and \<open>View\<close>.)

  Flow pointers are indices into the store the aggregator allocates them in. A slice is the list of its
  elements; \<open>d_shared\<close> says whether \<open>flows\<close> and \<open>allFlows\<close> are the same array, which \<open>applyFilters\<close>
  makes them, so that sorting one sorts the other. The order in which the aggregator's map is
  visited, the sorting algorithm (\<open>sort.Slice\<close> promises no more than a sorted permutation), the clock and what the
  kernel's counters return are arguments. A key is the text bubbletea gives it. Scroll positions move by at
  most ten per message, so they stay in the range of \<open>int\<close>.
\<close>

subsection \<open>State\<close>

record ThroughputSample =
  ts_Timestamp :: time
  ts_BytesPerSec :: u64
  ts_PacketsPerSec :: u64

record Dashboard =
  d_width :: int
  d_height :: int
  d_flows :: "nat list"
  d_allFlows :: "nat list"
  d_shared :: bool
  d_globalStats :: GlobalStats
  d_mainScroll :: int
  d_paused :: bool
  d_selectedFlow :: int
  d_sortBy :: string
  d_filterProto :: string
  d_lastUpdate :: time
  d_tableScroll :: int
  d_drillMode :: bool
  d_drillFlowIdx :: int
  d_drillScroll :: int
  d_frozenFlows :: "nat list"
  d_cachedPackets :: "PacketRecord list"
  d_helpMode :: bool
  d_filterMode :: bool
  d_filterInput :: string
  d_availableProtos :: "string list"
  d_selectedFlowId :: string
  d_throughputHistory :: "ThroughputSample list"
  d_lastStatsTime :: time
  d_lastTotalPackets :: u64
  d_lastTotalBytes :: u64

text \<open>The commands a handler returns to bubbletea.\<close>

datatype cmd = NoCmd | Quit | RefreshTick

datatype mouse = WheelUp | WheelDown | OtherMouse

datatype msg = KeyMsg string | MouseMsg mouse | WindowSizeMsg int int | RefreshFlowsMsg time | OtherMsg

definition zero_stats :: GlobalStats where
  "zero_stats = \<lparr>glob_TotalPackets = 0, glob_TotalBytes = 0, glob_TotalFlows = 0, glob_DroppedPackets = 0,
     glob_PacketLossRate = F64 0, glob_UpstreamTime = zero_time, glob_CurrentTime = zero_time,
     glob_PacketsPerSec = F64 0, glob_BytesPerSec = F64 0, glob_MbpsRate = F64 0\<rparr>"

definition NewDashboard :: "time \<Rightarrow> Dashboard" where
  "NewDashboard now =
     \<lparr>d_width = 0, d_height = 0, d_flows = [], d_allFlows = [], d_shared = False, d_globalStats = zero_stats,
      d_mainScroll = 0, d_paused = False, d_selectedFlow = 0, d_sortBy = ''bytes'', d_filterProto = '''',
      d_lastUpdate = now, d_tableScroll = 0, d_drillMode = False, d_drillFlowIdx = 0, d_drillScroll = 0,
      d_frozenFlows = [], d_cachedPackets = [], d_helpMode = False, d_filterMode = False, d_filterInput = '''',
      d_availableProtos = ['''', ''tcp'', ''udp'', ''icmp'', ''ipv6'', ''igmp'', ''gre'', ''esp'', ''ah'',
                           ''eigrp'', ''ospf'', ''sctp''],
      d_selectedFlowId = '''', d_throughputHistory = [], d_lastStatsTime = now, d_lastTotalPackets = 0,
      d_lastTotalBytes = 0\<rparr>"

text \<open>Following pointers; the garbage collector keeps them valid.\<close>

definition flow_at :: "store \<Rightarrow> nat \<Rightarrow> Flow" where
  "flow_at st r = st_flows st ! r"

definition history_at :: "store \<Rightarrow> nat \<Rightarrow> PacketRecord ring_buffer" where
  "history_at st r = st_rings st ! flow_PacketHistory (flow_at st r)"

text \<open>\<open>xs[i]\<close> with an \<open>int\<close> index.\<close>

definition gidx :: "'a list \<Rightarrow> int \<Rightarrow> 'a go" where
  "gidx xs i = (if 0 \<le> i then gindex xs (nat i) else Inl IndexOutOfRange)"

lemma gidx_ok [simp]: "0 \<le> i \<Longrightarrow> i < int (length xs) \<Longrightarrow> gidx xs i = Inr (xs ! nat i)"
  by (simp add: gidx_def)

subsection \<open>Identity, sorting, filtering\<close>

definition getFlowId :: "Flow \<Rightarrow> string" where
  "getFlowId flow = IP_String (flow_SrcIP flow) @ ''|'' @ IP_String (flow_DstIP flow) @ ''|'' @ flow_Protocol flow"

type_synonym sorter = "(nat \<Rightarrow> nat \<Rightarrow> bool) \<Rightarrow> nat list \<Rightarrow> nat list"

definition flow_less :: "string \<Rightarrow> store \<Rightarrow> nat \<Rightarrow> nat \<Rightarrow> bool" where
  "flow_less sortBy st i j =
     (let fi = flow_at st i; fj = flow_at st j in
      if sortBy = ''latest'' then flow_LastPacketTime fi > flow_LastPacketTime fj
      else if sortBy = ''packets'' then flow_PacketCount fi > flow_PacketCount fj
      else if sortBy = ''duration'' then
        time_Sub (flow_LastPacketTime fi) (flow_FirstPacketTime fi) > time_Sub (flow_LastPacketTime fj) (flow_FirstPacketTime fj)
      else flow_ByteCount fi > flow_ByteCount fj)"

definition sortFlows :: "sorter \<Rightarrow> store \<Rightarrow> Dashboard \<Rightarrow> Dashboard" where
  "sortFlows sort_Slice st d =
     (let sorted = sort_Slice (flow_less (d_sortBy d) st) (d_flows d) in
      d\<lparr>d_flows := sorted, d_allFlows := (if d_shared d then sorted else d_allFlows d)\<rparr>)"

definition applyFilters :: "store \<Rightarrow> Dashboard \<Rightarrow> Dashboard" where
  "applyFilters st d =
     (if d_filterProto d = '''' then d\<lparr>d_flows := d_allFlows d, d_shared := True\<rparr>
      else d\<lparr>d_flows := filter (\<lambda>r. flow_Protocol (flow_at st r) = d_filterProto d) (d_allFlows d),
             d_shared := False\<rparr>)"

subsection \<open>Refreshing\<close>

text \<open>What a refresh copies from the aggregator's flow into the one the dashboard holds.\<close>

definition copy_stats :: "Flow \<Rightarrow> Flow \<Rightarrow> Flow" where
  "copy_stats newFlow currentFlow = currentFlow
     \<lparr>flow_ByteCount := flow_ByteCount newFlow, flow_PacketCount := flow_PacketCount newFlow,
      flow_ForwardBytes := flow_ForwardBytes newFlow, flow_ReverseBytes := flow_ReverseBytes newFlow,
      flow_ForwardPackets := flow_ForwardPackets newFlow, flow_ReversePackets := flow_ReversePackets newFlow,
      flow_LastPacketTime := flow_LastPacketTime newFlow, flow_DNSQueries := flow_DNSQueries newFlow,
      flow_DNSQueryNames := flow_DNSQueryNames newFlow, flow_DNSFailures := flow_DNSFailures newFlow,
      flow_DNSLastQuery := flow_DNSLastQuery newFlow, flow_PacketHistory := flow_PacketHistory newFlow\<rparr>"

definition new_flow_map :: "store \<Rightarrow> nat list \<Rightarrow> (string, nat) gmap" where
  "new_flow_map st newFlows = foldl (\<lambda>m r. AList.update (getFlowId (flow_at st r)) r m) [] newFlows"

fun keep_loop :: "(string, nat) gmap \<Rightarrow> nat list \<Rightarrow> store \<Rightarrow> nat list \<Rightarrow> store \<times> nat list" where
  "keep_loop newFlowMap [] st kept = (st, kept)"
| "keep_loop newFlowMap (r # rs) st kept =
     (case map_of newFlowMap (getFlowId (flow_at st r)) of
        Some new \<Rightarrow> keep_loop newFlowMap rs
          (st\<lparr>st_flows := (st_flows st)[r := copy_stats (flow_at st new) (flow_at st r)]\<rparr>) (kept @ [r])
      | None \<Rightarrow> keep_loop newFlowMap rs st kept)"

fun select_loop :: "store \<Rightarrow> string \<Rightarrow> int \<Rightarrow> nat list \<Rightarrow> int \<Rightarrow> int" where
  "select_loop st ident i [] selected = selected"
| "select_loop st ident i (r # rs) selected =
     (if getFlowId (flow_at st r) = ident then i else select_loop st ident (i + 1) rs selected)"

text \<open>
  What follows the loop over the displayed flows: the new flows are added, the list is sorted and the
  selected flow found again.
\<close>

definition finish_refresh :: "sorter \<Rightarrow> time \<Rightarrow> nat list \<Rightarrow> nat list \<Rightarrow> store \<Rightarrow> Dashboard \<Rightarrow> Dashboard" where
  "finish_refresh sort_Slice now newFlows kept st d =
     (let existing = map (\<lambda>r. getFlowId (flow_at st r)) kept;
          added = filter (\<lambda>r. getFlowId (flow_at st r) \<notin> set existing) newFlows;
          d1 = d\<lparr>d_flows := kept @ added\<rparr>;
          d2 = (if length (d_flows d1) > 0 then
                  let d2 = sortFlows sort_Slice st d1 in
                  if d_selectedFlowId d2 \<noteq> ''''
                  then d2\<lparr>d_selectedFlow := select_loop st (d_selectedFlowId d2) 0 (d_flows d2) (d_selectedFlow d2)\<rparr>
                  else d2
                else d1)
      in d2\<lparr>d_allFlows := newFlows, d_shared := False, d_lastUpdate := now\<rparr>)"

text \<open>
  A refresh that no operation of the aggregator interrupts. (The program takes no lock while it copies:
  \<open>RefreshSteps\<close> splits the refresh into its accesses to the shared flows.)
\<close>

definition updateFlows ::
    "sorter \<Rightarrow> ((string, nat) gmap \<Rightarrow> (string, nat) gmap) \<Rightarrow> time \<Rightarrow> FlowAggregator \<Rightarrow> store \<times> Dashboard \<Rightarrow>
     store \<times> Dashboard" where
  "updateFlows sort_Slice visit now fa = (\<lambda>(st, d).
     if d_paused d then (st, d)
     else
       let newFlows = GetAllFlows visit fa;
           (st', kept) = keep_loop (new_flow_map st newFlows) (d_flows d) st []
       in (st', finish_refresh sort_Slice now newFlows kept st' d))"

definition updateStats :: "time \<Rightarrow> FlowAggregator \<Rightarrow> Dashboard \<Rightarrow> Dashboard" where
  "updateStats now fa d = d\<lparr>d_globalStats := GetGlobalStats now fa\<rparr>"

subsection \<open>The throughput history\<close>

text \<open>\<open>Duration.Seconds\<close>.\<close>

definition Seconds :: "duration \<Rightarrow> f64" where
  "Seconds d = f_add (f_int (d sdiv 10 ^ 9)) (f_div (f_int (d smod 10 ^ 9)) (f_int (10 ^ 9)))"

definition push_sample :: "ThroughputSample list \<Rightarrow> ThroughputSample \<Rightarrow> ThroughputSample list" where
  "push_sample history sample =
     (let h = history @ [sample] in if length h > 60 then tl h else h)"

definition updateThroughputHistory ::
    "(f64 \<Rightarrow> u64) \<Rightarrow> time \<Rightarrow> EventReader option \<Rightarrow> (u64 \<times> u64) option \<Rightarrow> Dashboard \<Rightarrow> Dashboard" where
  "updateThroughputHistory oob now reader lookup d =
     (case reader of None \<Rightarrow> d
      | Some er \<Rightarrow>
          let timeDiff = Seconds (time_Sub now (d_lastStatsTime d)) in
          if timeDiff < F64 1 then d
          else
            let (kernelPkts, kernelBytes) = KernelStats er lookup in
            if d_lastTotalPackets d = 0 \<and> kernelPkts > 0 then
              d\<lparr>d_lastStatsTime := now, d_lastTotalPackets := kernelPkts, d_lastTotalBytes := kernelBytes\<rparr>
            else
              let packetsDiff = kernelPkts - d_lastTotalPackets d;
                  bytesDiff = kernelBytes - d_lastTotalBytes d;
                  pps = f_to_u64 oob (f_div (f_u64 packetsDiff) timeDiff);
                  bps = f_to_u64 oob (f_div (f_u64 bytesDiff) timeDiff);
                  sample = \<lparr>ts_Timestamp = now, ts_BytesPerSec = bps, ts_PacketsPerSec = pps\<rparr>
              in d\<lparr>d_throughputHistory := push_sample (d_throughputHistory d) sample,
                   d_lastStatsTime := now, d_lastTotalPackets := kernelPkts, d_lastTotalBytes := kernelBytes\<rparr>)"

subsection \<open>Keys\<close>

text \<open>The loops that move the filter choice; \<open>n\<close> iterations are left.\<close>

fun proto_up_loop :: "string list \<Rightarrow> string \<Rightarrow> nat \<Rightarrow> string go" where
  "proto_up_loop protos input 0 = Inr input"
| "proto_up_loop protos input (Suc i) =
     gbind (gindex protos i) (\<lambda>p.
       if p = input then
         (if i > 0 then gindex protos (i - 1) else gidx protos (int (length protos) - 1))
       else proto_up_loop protos input i)"

fun proto_down_loop :: "string list \<Rightarrow> string \<Rightarrow> nat \<Rightarrow> nat \<Rightarrow> string go" where
  "proto_down_loop protos input i 0 = Inr input"
| "proto_down_loop protos input i (Suc n) =
     gbind (gindex protos i) (\<lambda>p.
       if p = input then
         (if int i < int (length protos) - 1 then gindex protos (i + 1) else gindex protos 0)
       else proto_down_loop protos input (i + 1) n)"

definition drill_max_scroll :: "store \<Rightarrow> int \<Rightarrow> nat \<Rightarrow> int" where
  "drill_max_scroll st height r =
     (let flow = flow_at st r;
          contentLines = 50 + int (Len (history_at st r)) + int (length (flow_StateChanges flow)) +
                         int (length (flow_DNSQueries flow));
          availableRows = (if height - 2 < 10 then 10 else height - 2);
          maxScroll = contentLines - availableRows
      in if maxScroll < 0 then 0 else maxScroll)"

definition help_key :: "string \<Rightarrow> Dashboard \<Rightarrow> Dashboard" where
  "help_key key d = (if key \<in> set [''esc'', ''q'', ''?''] then d\<lparr>d_helpMode := False\<rparr> else d)"

definition filter_key :: "sorter \<Rightarrow> store \<Rightarrow> string \<Rightarrow> Dashboard \<Rightarrow> Dashboard go" where
  "filter_key sort_Slice st key d =
     (if key = ''esc'' then Inr (d\<lparr>d_filterMode := False, d_filterInput := ''''\<rparr>)
      else if key = ''enter'' then
        Inr ((sortFlows sort_Slice st (applyFilters st (d\<lparr>d_filterProto := d_filterInput d\<rparr>)))
             \<lparr>d_filterMode := False, d_filterInput := '''', d_selectedFlow := 0, d_selectedFlowId := ''''\<rparr>)
      else if key = ''up'' then
        gbind (proto_up_loop (d_availableProtos d) (d_filterInput d) (length (d_availableProtos d)))
          (\<lambda>p. Inr (d\<lparr>d_filterInput := p\<rparr>))
      else if key = ''down'' then
        gbind (proto_down_loop (d_availableProtos d) (d_filterInput d) 0 (length (d_availableProtos d)))
          (\<lambda>p. Inr (d\<lparr>d_filterInput := p\<rparr>))
      else Inr d)"

definition drill_key :: "store \<Rightarrow> string \<Rightarrow> Dashboard \<Rightarrow> Dashboard go" where
  "drill_key st key d =
     (if key \<in> set [''esc'', ''q''] then
        Inr (d\<lparr>d_drillMode := False, d_drillScroll := 0, d_frozenFlows := [], d_cachedPackets := []\<rparr>)
      else if key \<in> set [''up'', ''k''] then
        Inr (if d_drillScroll d > 0 then d\<lparr>d_drillScroll := d_drillScroll d - 1\<rparr> else d)
      else if key \<in> set [''down'', ''j''] then
        (if d_drillFlowIdx d < int (length (d_frozenFlows d)) then
           gbind (gidx (d_frozenFlows d) (d_drillFlowIdx d)) (\<lambda>r.
             Inr (if d_drillScroll d < drill_max_scroll st (d_height d) r
                  then d\<lparr>d_drillScroll := d_drillScroll d + 1\<rparr> else d))
         else Inr d)
      else if key = ''pgup'' then
        Inr (d\<lparr>d_drillScroll := (if d_drillScroll d - 10 < 0 then 0 else d_drillScroll d - 10)\<rparr>)
      else if key = ''pgdn'' then
        (if d_drillFlowIdx d < int (length (d_frozenFlows d)) then
           gbind (gidx (d_frozenFlows d) (d_drillFlowIdx d)) (\<lambda>r.
             let maxScroll = drill_max_scroll st (d_height d) r; s = d_drillScroll d + 10 in
             Inr (d\<lparr>d_drillScroll := (if s > maxScroll then maxScroll else s)\<rparr>))
         else Inr d)
      else Inr d)"

definition table_rows :: "int \<Rightarrow> int" where
  "table_rows height = (if height - 12 < 3 then 3 else height - 12)"

text \<open>Remember the selected flow by its identity.\<close>

definition track_selection :: "store \<Rightarrow> Dashboard \<Rightarrow> Dashboard go" where
  "track_selection st d =
     (if d_selectedFlow d < int (length (d_flows d)) then
        gbind (gidx (d_flows d) (d_selectedFlow d)) (\<lambda>r.
          Inr (d\<lparr>d_selectedFlowId := getFlowId (flow_at st r)\<rparr>))
      else Inr d)"

definition next_sort :: "string \<Rightarrow> string" where
  "next_sort s = (if s = ''bytes'' then ''packets'' else if s = ''packets'' then ''duration''
                  else if s = ''duration'' then ''latest'' else ''bytes'')"

definition enter_drill :: "store \<Rightarrow> Dashboard \<Rightarrow> Dashboard go" where
  "enter_drill st d =
     (if d_selectedFlow d < int (length (d_flows d)) then
        let d1 = d\<lparr>d_drillMode := True, d_drillFlowIdx := d_selectedFlow d, d_drillScroll := 0,
                   d_frozenFlows := d_flows d\<rparr> in
        if d_drillFlowIdx d1 < int (length (d_frozenFlows d1)) then
          gbind (gidx (d_frozenFlows d1) (d_drillFlowIdx d1)) (\<lambda>r.
          gbind (GetAll (history_at st r)) (\<lambda>pkts. Inr (d1\<lparr>d_cachedPackets := pkts\<rparr>)))
        else Inr d1
      else Inr d)"

definition main_key :: "sorter \<Rightarrow> store \<Rightarrow> string \<Rightarrow> Dashboard \<Rightarrow> (Dashboard \<times> cmd) go" where
  "main_key sort_Slice st key d =
     (let no_cmd = (\<lambda>d. Inr (d, NoCmd)) in
      if key \<in> set [''q'', ''ctrl+c''] then Inr (d, Quit)
      else if key = ''p'' then no_cmd (d\<lparr>d_paused := \<not> d_paused d\<rparr>)
      else if key \<in> set [''up'', ''k''] then
        (if d_selectedFlow d > 0 then
           let d1 = d\<lparr>d_selectedFlow := d_selectedFlow d - 1\<rparr>;
               d2 = (if d_selectedFlow d1 < d_tableScroll d1 then d1\<lparr>d_tableScroll := d_selectedFlow d1\<rparr> else d1)
           in gbind (track_selection st d2) no_cmd
         else no_cmd d)
      else if key \<in> set [''down'', ''j''] then
        (if d_selectedFlow d < int (length (d_flows d)) - 1 then
           let d1 = d\<lparr>d_selectedFlow := d_selectedFlow d + 1\<rparr>;
               rows = table_rows (d_height d);
               d2 = (if d_selectedFlow d1 \<ge> d_tableScroll d1 + rows
                     then d1\<lparr>d_tableScroll := d_selectedFlow d1 - rows + 1\<rparr> else d1)
           in gbind (track_selection st d2) no_cmd
         else no_cmd d)
      else if key = ''enter'' then gbind (enter_drill st d) no_cmd
      else if key = ''f'' then no_cmd (d\<lparr>d_filterMode := True, d_filterInput := d_filterProto d\<rparr>)
      else if key = ''s'' then
        no_cmd ((sortFlows sort_Slice st (d\<lparr>d_sortBy := next_sort (d_sortBy d)\<rparr>))
                \<lparr>d_selectedFlow := 0, d_tableScroll := 0, d_selectedFlowId := ''''\<rparr>)
      else if key = ''pgup'' then
        no_cmd (d\<lparr>d_mainScroll := (if d_mainScroll d - 10 < 0 then 0 else d_mainScroll d - 10)\<rparr>)
      else if key = ''pgdn'' then no_cmd (d\<lparr>d_mainScroll := d_mainScroll d + 10\<rparr>)
      else if key = ''?'' then no_cmd (d\<lparr>d_helpMode := True\<rparr>)
      else no_cmd d)"

definition handleKeypress :: "sorter \<Rightarrow> store \<Rightarrow> string \<Rightarrow> Dashboard \<Rightarrow> (Dashboard \<times> cmd) go" where
  "handleKeypress sort_Slice st key d =
     (if d_helpMode d then Inr (help_key key d, NoCmd)
      else if d_filterMode d then gbind (filter_key sort_Slice st key d) (\<lambda>d. Inr (d, NoCmd))
      else if d_drillMode d then gbind (drill_key st key d) (\<lambda>d. Inr (d, NoCmd))
      else main_key sort_Slice st key d)"

subsection \<open>The mouse wheel\<close>

definition handleMouseScroll :: "store \<Rightarrow> mouse \<Rightarrow> Dashboard \<Rightarrow> (Dashboard \<times> cmd) go" where
  "handleMouseScroll st m d =
     (if d_drillMode d \<and> d_drillFlowIdx d < int (length (d_frozenFlows d)) then
        gbind (gidx (d_frozenFlows d) (d_drillFlowIdx d)) (\<lambda>r.
          let maxScroll = drill_max_scroll st (d_height d) r in
          Inr (case m of
                 WheelUp \<Rightarrow> d\<lparr>d_drillScroll := (if d_drillScroll d - 3 < 0 then 0 else d_drillScroll d - 3)\<rparr>
               | WheelDown \<Rightarrow> d\<lparr>d_drillScroll := (if d_drillScroll d + 3 > maxScroll then maxScroll else d_drillScroll d + 3)\<rparr>
               | OtherMouse \<Rightarrow> d, NoCmd))
      else if d_helpMode d \<or> d_filterMode d then Inr (d, NoCmd)
      else Inr (case m of
                  WheelUp \<Rightarrow> d\<lparr>d_mainScroll := (if d_mainScroll d - 3 < 0 then 0 else d_mainScroll d - 3)\<rparr>
                | WheelDown \<Rightarrow> d\<lparr>d_mainScroll := d_mainScroll d + 3\<rparr>
                | OtherMouse \<Rightarrow> d, NoCmd))"

subsection \<open>Messages\<close>

text \<open>What a handler needs of the world: sorting, the map's visiting order, two clock readings, the aggregator.\<close>

record world =
  w_sort_Slice :: sorter
  w_visit :: "(string, nat) gmap \<Rightarrow> (string, nat) gmap"
  w_now :: time
  w_stats_now :: time
  w_aggregator :: FlowAggregator

definition Update :: "world \<Rightarrow> msg \<Rightarrow> store \<times> Dashboard \<Rightarrow> (store \<times> Dashboard \<times> cmd) go" where
  "Update w m = (\<lambda>(st, d).
     case m of
       KeyMsg key \<Rightarrow> gbind (handleKeypress (w_sort_Slice w) st key d) (\<lambda>(d, c). Inr (st, d, c))
     | MouseMsg mm \<Rightarrow> gbind (handleMouseScroll st mm d) (\<lambda>(d, c). Inr (st, d, c))
     | WindowSizeMsg width height \<Rightarrow> Inr (st, d\<lparr>d_width := width, d_height := height\<rparr>, NoCmd)
     | RefreshFlowsMsg t \<Rightarrow>
         (let (st', d1) = updateFlows (w_sort_Slice w) (w_visit w) (w_now w) (w_aggregator w) (st, d);
              d2 = updateStats (w_stats_now w) (w_aggregator w) d1
          in Inr (st', d2, RefreshTick))
     | OtherMsg \<Rightarrow> Inr (st, d, NoCmd))"

end
