(* ===== verification/Format.thy ===== *)
theory Format
  imports Dashboard
begin

text \<open>
  The text helpers of \<^verbatim>\<open>internal/tui/dashboard.go\<close>: glyphs, padding, numbers, durations, clock times,
  addresses and service names. A Go string is its UTF-8 bytes; \<open>fmt\<close> pads to a number of runes, while \<open>len\<close>
  and slicing count bytes. The strings the dashboard pads are valid UTF-8. The offset of the local time
  zone is an argument.
\<close>

subsection \<open>Runes\<close>

definition utf8 :: "nat \<Rightarrow> string" where
  "utf8 c = map char_of
     (if c < 128 then [c]
      else if c < 2048 then [192 + c div 64, 128 + c mod 64]
      else if c < 65536 then [224 + c div 4096, 128 + c div 64 mod 64, 128 + c mod 64]
      else [240 + c div 262144, 128 + c div 4096 mod 64, 128 + c div 64 mod 64, 128 + c mod 64])"

text \<open>\<open>utf8.RuneCountInString\<close> of a valid string: every byte but the continuation bytes starts a rune.\<close>

definition starts_rune :: "char \<Rightarrow> bool" where
  "starts_rune c \<longleftrightarrow> \<not> (128 \<le> (of_char c :: nat) \<and> (of_char c :: nat) < 192)"

definition rune_count :: "string \<Rightarrow> nat" where
  "rune_count s = length (filter starts_rune s)"

abbreviation "newline \<equiv> CHR 0x0A"
abbreviation "box_tl \<equiv> utf8 0x250C"
abbreviation "box_tr \<equiv> utf8 0x2510"
abbreviation "box_bl \<equiv> utf8 0x2514"
abbreviation "box_br \<equiv> utf8 0x2518"
abbreviation "box_h \<equiv> utf8 0x2500"
abbreviation "box_v \<equiv> utf8 0x2502"
abbreviation "box_down \<equiv> utf8 0x252C"
abbreviation "box_up \<equiv> utf8 0x2534"
abbreviation "box_right \<equiv> utf8 0x251C"
abbreviation "box_left \<equiv> utf8 0x2524"
abbreviation "box_cross \<equiv> utf8 0x253C"
abbreviation "arc_tl \<equiv> utf8 0x256D"
abbreviation "arc_tr \<equiv> utf8 0x256E"
abbreviation "arc_bl \<equiv> utf8 0x2570"
abbreviation "arc_br \<equiv> utf8 0x256F"
abbreviation "dbl_tl \<equiv> utf8 0x2554"
abbreviation "dbl_h \<equiv> utf8 0x2550"
abbreviation "dbl_tr \<equiv> utf8 0x2557"
abbreviation "arrow_left \<equiv> utf8 0x2190"
abbreviation "arrow_up \<equiv> utf8 0x2191"
abbreviation "arrow_right \<equiv> utf8 0x2192"
abbreviation "arrow_down \<equiv> utf8 0x2193"
abbreviation "pointer \<equiv> utf8 0x25B6"
abbreviation "bullet \<equiv> utf8 0x2022"
abbreviation "full_block \<equiv> utf8 0x2588"
abbreviation "light_shade \<equiv> utf8 0x2591"
abbreviation "middle_dot \<equiv> utf8 0x00B7"
abbreviation "warning_sign \<equiv> utf8 0x26A0"
abbreviation "cross_mark \<equiv> utf8 0x2718"
abbreviation "check_mark \<equiv> utf8 0x2713"
abbreviation "blue_circle \<equiv> utf8 0x1F535"
abbreviation "green_circle \<equiv> utf8 0x1F7E2"
abbreviation "yellow_circle \<equiv> utf8 0x1F7E1"
abbreviation "red_circle \<equiv> utf8 0x1F534"
abbreviation "hollow_circle \<equiv> utf8 0x2B55"

definition reps :: "nat \<Rightarrow> string \<Rightarrow> string" where
  "reps n s = concat (replicate n s)"

subsection \<open>Padding and numbers\<close>

text \<open>\<open>%ns\<close> and \<open>%-ns\<close>; the numbers that \<open>%d\<close> prints are unsigned or lengths, except where \<^const>\<open>dec_int\<close> is used.\<close>

definition pad_left :: "nat \<Rightarrow> string \<Rightarrow> string" where
  "pad_left n s = replicate (n - rune_count s) CHR '' '' @ s"

definition pad_right :: "nat \<Rightarrow> string \<Rightarrow> string" where
  "pad_right n s = s @ replicate (n - rune_count s) CHR '' ''"

definition dec_u64 :: "u64 \<Rightarrow> string" where
  "dec_u64 w = dec (unat w)"

fun repeat_loop :: "string \<Rightarrow> string \<Rightarrow> nat \<Rightarrow> string" where
  "repeat_loop s result 0 = result"
| "repeat_loop s result (Suc n) = repeat_loop s (result @ s) n"

definition repeatStr :: "string \<Rightarrow> int \<Rightarrow> string" where
  "repeatStr s n = repeat_loop s '''' (nat n)"

definition min_int :: "int \<Rightarrow> int \<Rightarrow> int" where
  "min_int a b = (if a < b then a else b)"

definition formatBytes :: "u64 \<Rightarrow> string" where
  "formatBytes bytes =
     (let KB = 1024; MB = KB * 1024; GB = MB * 1024 in
      if bytes \<ge> GB then fixed 1 (f_div (f_u64 bytes) (f_u64 GB)) @ ''GB''
      else if bytes \<ge> MB then fixed 1 (f_div (f_u64 bytes) (f_u64 MB)) @ ''MB''
      else if bytes \<ge> KB then fixed 1 (f_div (f_u64 bytes) (f_u64 KB)) @ ''KB''
      else dec_u64 bytes @ ''B'')"

text \<open>\<open>Duration.Hours\<close> and \<open>Duration.Minutes\<close>, as \<^const>\<open>Seconds\<close>: whole units and the fraction separately.\<close>

definition in_units :: "int \<Rightarrow> duration \<Rightarrow> f64" where
  "in_units unit d = f_add (f_int (d sdiv unit)) (f_div (f_int (d smod unit)) (f_int unit))"

definition Hours :: "duration \<Rightarrow> f64" where
  "Hours d = in_units (60 * 60 * 10 ^ 9) d"

definition Minutes :: "duration \<Rightarrow> f64" where
  "Minutes d = in_units (60 * 10 ^ 9) d"

lemma Seconds_in_units: "Seconds d = in_units (10 ^ 9) d"
  by (simp add: Seconds_def in_units_def)

definition formatDuration :: "duration \<Rightarrow> string" where
  "formatDuration d =
     (let hours = f_trunc (Hours d);
          minutes = f_trunc (Minutes d) smod 60;
          seconds = f_trunc (Seconds d) smod 60 in
      if hours > 0 then dec_int hours @ ''h '' @ dec_int minutes @ ''m''
      else if minutes > 0 then dec_int minutes @ ''m '' @ dec_int seconds @ ''s''
      else dec_int seconds @ ''s'')"

text \<open>\<open>Time.Format\<close> with the layouts \<open>15:04:05\<close> and \<open>15:04:05.00\<close>; \<open>zone\<close> is the local offset from UTC in seconds.\<close>

definition two_digits :: "int \<Rightarrow> string" where
  "two_digits i = pad_zeros 2 (dec (nat i))"

definition clock :: "(time \<Rightarrow> int) \<Rightarrow> time \<Rightarrow> string" where
  "clock zone t = (let s = (t div 10 ^ 9 + zone t) mod 86400 in
     two_digits (s div 3600) @ '':'' @ two_digits (s div 60 mod 60) @ '':'' @ two_digits (s mod 60))"

definition clock_centis :: "(time \<Rightarrow> int) \<Rightarrow> time \<Rightarrow> string" where
  "clock_centis zone t = clock zone t @ ''.'' @ two_digits (t mod 10 ^ 9 div 10 ^ 7)"

subsection \<open>Addresses, services, states\<close>

fun last_dot :: "string \<Rightarrow> nat \<Rightarrow> int" where
  "last_dot parts 0 = - 1"
| "last_dot parts (Suc i) = (if parts ! i = CHR ''.'' then int i else last_dot parts i)"

definition shortIP :: "net_IP \<Rightarrow> string" where
  "shortIP ip =
     (case ip of None \<Rightarrow> ''?''
      | Some _ \<Rightarrow>
          let parts = IP_String ip; lastDot = last_dot parts (length parts) in
          if lastDot \<ge> 0 then drop (nat (lastDot + 1)) parts else parts)"

definition getServiceName :: "u16 \<Rightarrow> string" where
  "getServiceName port =
     (if port = 20 then ''FTP-DATA''
      else if port = 21 then ''FTP''
      else if port = 22 then ''SSH''
      else if port = 23 then ''TELNET''
      else if port = 25 then ''SMTP''
      else if port = 53 then ''DNS''
      else if port = 67 then ''DHCP''
      else if port = 68 then ''DHCP''
      else if port = 80 then ''HTTP''
      else if port = 110 then ''POP3''
      else if port = 123 then ''NTP''
      else if port = 143 then ''IMAP''
      else if port = 443 then ''HTTPS''
      else if port = 445 then ''SMB''
      else if port = 3306 then ''MySQL''
      else if port = 3389 then ''RDP''
      else if port = 5432 then ''PG''
      else if port = 5900 then ''VNC''
      else if port = 8080 then ''HTTP-8080''
      else if port = 27017 then ''MongoDB''
      else '''')"

definition getStateEmoji :: "string \<Rightarrow> string" where
  "getStateEmoji state =
     (if state \<in> set [''SYN_SENT'', ''SYN_RCVD''] then blue_circle
      else if state = ''ESTABLISHED'' then green_circle
      else if state \<in> set [''FIN_WAIT_1'', ''FIN_WAIT_2'', ''CLOSING'', ''TIME_WAIT''] then yellow_circle
      else if state = ''CLOSED'' then red_circle
      else hollow_circle)"

text \<open>A \<open>lipgloss.Color\<close> is the text of its number.\<close>

definition getStateColor :: "string \<Rightarrow> string" where
  "getStateColor state =
     (if state \<in> set [''SYN_SENT'', ''SYN_RCVD''] then ''39''
      else if state = ''ESTABLISHED'' then ''46''
      else if state \<in> set [''FIN_WAIT_1'', ''FIN_WAIT_2'', ''CLOSING'', ''TIME_WAIT''] then ''220''
      else if state = ''CLOSED'' then ''196''
      else ''250'')"

text \<open>\<open>strings.Split(s, "\n")\<close>.\<close>

fun splitLines :: "string \<Rightarrow> string list" where
  "splitLines [] = [[]]"
| "splitLines (c # cs) =
     (if c = newline then [] # splitLines cs
      else case splitLines cs of l # ls \<Rightarrow> (c # l) # ls | [] \<Rightarrow> [[c]])"

text \<open>A text cut to \<open>keep\<close> bytes and an ellipsis when it is longer than \<open>limit\<close>.\<close>

definition shorten :: "int \<Rightarrow> int \<Rightarrow> string \<Rightarrow> string go" where
  "shorten limit keep s =
     (if int (length s) > limit then gbind (gslice s 0 keep) (\<lambda>t. Inr (t @ ''...'')) else Inr s)"

lemma shorten_ok: "0 \<le> keep \<Longrightarrow> keep \<le> limit \<Longrightarrow>
    shorten limit keep s = Inr (if int (length s) > limit then take (nat keep) s @ ''...'' else s)"
  by (simp add: shorten_def gslice_def)

end
