(* ===== verification/Sorting.thy ===== *)
theory Sorting
  imports "HOL-Library.Multiset"
begin

text \<open>
  What the program relies on of \<open>sort.Slice\<close>: the interface \<open>slice_sort\<close> (a permutation, in
  descending order when the comparison is by a key; equal elements may come in any order), and the
  insertion sort that Go's library uses for slices of up to twelve elements, which provides it.
\<close>

locale slice_sort =
  fixes sort_Slice :: "('a \<Rightarrow> 'a \<Rightarrow> bool) \<Rightarrow> 'a list \<Rightarrow> 'a list"
  assumes permutes: "mset (sort_Slice lt xs) = mset xs"
    and descending: "lt = (\<lambda>x y. (key y :: int) < key x) \<Longrightarrow> sorted_wrt (\<lambda>x y. key y \<le> key x) (sort_Slice lt xs)"
begin

lemma set_sorted [simp]: "set (sort_Slice lt xs) = set xs"
  using permutes by (metis set_mset_mset)

lemma length_sorted [simp]: "length (sort_Slice lt xs) = length xs"
  using permutes by (metis size_mset)

lemma distinct_map_sorted: "distinct (map f (sort_Slice lt xs)) = distinct (map f xs)"
proof -
  have "mset (map f (sort_Slice lt xs)) = mset (map f xs)" by (simp add: permutes)
  then show ?thesis by (rule mset_eq_imp_distinct_iff)
qed

text \<open>The first element is a maximum of the key.\<close>

lemma first_is_maximal:
  assumes "lt = (\<lambda>x y. (key y :: int) < key x)" and "x \<in> set xs"
  shows "key x \<le> key (hd (sort_Slice lt xs))"
proof (cases "sort_Slice lt xs")
  case Nil
  then show ?thesis using assms(2) set_sorted [of lt xs] by simp
next
  case (Cons y ys)
  then show ?thesis
    using descending [OF assms(1), of xs] assms(2) set_sorted [of lt xs] by auto
qed

end

text \<open>Insertion: an element moves towards the front past the elements that it is less than.\<close>

fun insert_back :: "('a \<Rightarrow> 'a \<Rightarrow> bool) \<Rightarrow> 'a \<Rightarrow> 'a list \<Rightarrow> 'a list" where
  "insert_back lt x [] = [x]"
| "insert_back lt x (y # ys) = (if lt x y then y # insert_back lt x ys else x # y # ys)"

text \<open>The sorted prefix is kept in reverse, nearest element first.\<close>

definition insertion_sort :: "('a \<Rightarrow> 'a \<Rightarrow> bool) \<Rightarrow> 'a list \<Rightarrow> 'a list" where
  "insertion_sort lt xs = rev (foldl (\<lambda>acc x. insert_back lt x acc) [] xs)"

lemma mset_insert_back [simp]: "mset (insert_back lt x ys) = add_mset x (mset ys)"
  by (induction ys) simp_all

lemma mset_insertion: "mset (foldl (\<lambda>acc x. insert_back lt x acc) acc xs) = mset acc + mset xs"
  by (induction xs arbitrary: acc) simp_all

lemma sorted_insert_back:
  assumes "sorted_wrt (\<lambda>x y. key x \<le> key y) ys"
  shows "sorted_wrt (\<lambda>x y. key x \<le> (key y :: int)) (insert_back (\<lambda>x y. key y < key x) x ys)"
  using assms
proof (induction ys)
  case (Cons y ys)
  have "set (insert_back (\<lambda>x y. key y < key x) x ys) = insert x (set ys)"
    using mset_insert_back [of "\<lambda>x y. key y < key x" x ys] by (metis set_mset_add_mset_insert set_mset_mset)
  with Cons show ?case by fastforce
qed simp

lemma sorted_insertion:
  "sorted_wrt (\<lambda>x y. key x \<le> (key y :: int)) acc \<Longrightarrow>
   sorted_wrt (\<lambda>x y. key x \<le> key y) (foldl (\<lambda>acc x. insert_back (\<lambda>x y. key y < key x) x acc) acc xs)"
  by (induction xs arbitrary: acc) (simp_all add: sorted_insert_back)

interpretation go_sort: slice_sort insertion_sort
proof
  show "mset (insertion_sort lt xs) = mset xs" for lt and xs :: "'a list"
    by (simp add: insertion_sort_def mset_insertion)
  show "sorted_wrt (\<lambda>x y. key y \<le> key x) (insertion_sort lt xs)"
    if "lt = (\<lambda>x y. (key y :: int) < key x)" for lt key and xs :: "'a list"
    using sorted_insertion [of key "[]" xs] by (simp add: insertion_sort_def that sorted_wrt_rev)
qed

lemma go_sort_slice_sort: "slice_sort insertion_sort"
  by (rule go_sort.slice_sort_axioms)

end
