(* ===== verification/Widgets.thy ===== *)
theory Widgets
  imports Format Sorting
begin

text \<open>
  The widgets of \<^verbatim>\<open>internal/tui/dashboard.go\<close>: what each \<open>render\<close> function writes. \<open>lipgloss\<close>, which colours a text and
  joins blocks of text, is third-party code and an argument; a style is the list of the rules a style is
  built from. The screen record holds what a frame reads besides the dashboard: the clock, the kernel's counters,
  the reader with its status log, the visiting orders of the widgets' maps, and the sorting algorithm at the
  three types it is used at.
\<close>

subsection \<open>What a frame needs of its environment\<close>

datatype style_rule =
    Bold
  | Foreground string
  | PaddingLeft int
  | Width int
  | Height int
  | BorderLeft
  | RoundedBorder
  | Padding int int

record lipgloss =
  lg_Render :: "style_rule list \<Rightarrow> string \<Rightarrow> string"
  lg_JoinVertical :: "string list \<Rightarrow> string"
  lg_JoinHorizontal :: "string list \<Rightarrow> string"

record screen =
  v_lip :: lipgloss
  v_now :: time
  v_drill_now :: time
  v_zone :: "time \<Rightarrow> int"
  v_reader :: "EventReader option"
  v_lookup :: "(u64 \<times> u64) option"
  v_oob :: "f64 \<Rightarrow> u64"
  v_visit_protos :: "(string, u64) gmap \<Rightarrow> (string, u64) gmap"
  v_visit_ports :: "(u16, u64) gmap \<Rightarrow> (u16, u64) gmap"
  v_visit_domains :: "(string, bool) gmap \<Rightarrow> (string, bool) gmap"
  v_sort_flows :: sorter
  v_sort_protos :: "(string \<times> u64 \<Rightarrow> string \<times> u64 \<Rightarrow> bool) \<Rightarrow> (string \<times> u64) list \<Rightarrow> (string \<times> u64) list"
  v_sort_ports :: "(u16 \<times> u64 \<Rightarrow> u16 \<times> u64 \<Rightarrow> bool) \<Rightarrow> (u16 \<times> u64) list \<Rightarrow> (u16 \<times> u64) list"

abbreviation render :: "screen \<Rightarrow> style_rule list \<Rightarrow> string \<Rightarrow> string" where
  "render v \<equiv> lg_Render (v_lip v)"

abbreviation join_lines :: "screen \<Rightarrow> string list \<Rightarrow> string" where
  "join_lines v \<equiv> lg_JoinVertical (v_lip v)"

text \<open>The width of the widgets that stand side by side; Go's \<open>/\<close> truncates.\<close>

definition half_width :: "Dashboard \<Rightarrow> int" where
  "half_width d = d_width d sdiv 2 - 6"

subsection \<open>Header and footer\<close>

definition renderHeader :: "screen \<Rightarrow> string" where
  "renderHeader v = render v [Bold, Foreground ''39'']
     (dbl_tl @ '' JOPIL - Journey of Packet in Linux Kernel '' @ reps 32 dbl_h @ dbl_tr)"

definition renderFooter :: "screen \<Rightarrow> Dashboard \<Rightarrow> string" where
  "renderFooter v d = render v [Foreground ''240'', PaddingLeft 1]
     (''[?]Help '' @ box_v @ '' [P]ause '' @ box_v @ '' ['' @ arrow_up @ arrow_down @ ''/KJ]Move '' @ box_v @ '' [PgUp/PgDn]Scroll '' @ box_v @ '' [Enter]Drill '' @ box_v @ '' [F]ilter '' @ box_v @ '' [S]ort: '' @
      d_sortBy d @ '' '' @ box_v @ '' [Q]uit'')"

subsection \<open>The flows table\<close>

text \<open>A row of seven cells, the first two with their own paddings.\<close>

definition table_cells :: "string \<Rightarrow> string \<Rightarrow> string \<Rightarrow> string \<Rightarrow> string \<Rightarrow> string \<Rightarrow> string \<Rightarrow> string" where
  "table_cells src dst proto fwd bwd pkts bytes =
     box_v @ '' '' @ src @ '' '' @ box_v @ '' '' @ pad_right 17 dst @ '' '' @ box_v @ '' '' @ pad_right 6 proto @ '' '' @ box_v @ '' '' @ pad_left 7 fwd @ '' | '' @
     pad_left 7 bwd @ '' '' @ box_v @ '' '' @ pad_right 8 pkts @ '' '' @ box_v @ '' '' @ pad_right 12 bytes"

definition table_style :: "style_rule list" where
  "table_style = [Bold, Foreground ''240'', PaddingLeft 1]"

definition table_head :: "screen \<Rightarrow> string list" where
  "table_head v = map (render v table_style)
     [arc_tl @ reps 17 box_h @ box_down @ reps 17 box_h @ box_down @ reps 8 box_h @ box_down @ reps 9 box_h @ box_cross @ reps 9 box_h @ box_down @ reps 10 box_h @ box_down @ reps 14 box_h @ arc_tr,
      table_cells (pad_right 17 ''SRC IP'') ''DST IP'' ''PROTO'' (arrow_right @ '' PKTS'') (arrow_left @ '' PKTS'') ''TOTAL'' ''BYTES'',
      box_right @ reps 17 box_h @ box_cross @ reps 17 box_h @ box_cross @ reps 8 box_h @ box_cross @ reps 9 box_h @ box_cross @ reps 9 box_h @ box_cross @ reps 10 box_h @ box_cross @ reps 14 box_h @ box_left]"

definition table_foot :: "screen \<Rightarrow> string list" where
  "table_foot v = map (render v table_style)
     [arc_bl @ reps 17 box_h @ box_up @ reps 17 box_h @ box_up @ reps 8 box_h @ box_up @ reps 8 box_h @ box_up @ reps 8 box_h @ box_up @ reps 10 box_h @ box_up @ reps 14 box_h @ arc_br,
      ''* Most common port (port_count if >1 variation)'']"

definition flow_row :: "store \<Rightarrow> nat \<Rightarrow> bool \<Rightarrow> string" where
  "flow_row st r selected =
     (let flow = flow_at st r; prefix = (if selected then pointer @ '' '' else ''  '') in
      table_cells (prefix @ pad_right 15 (IP_String (flow_SrcIP flow))) (IP_String (flow_DstIP flow)) (flow_Protocol flow)
        (dec_u64 (flow_ForwardPackets flow)) (dec_u64 (flow_ReversePackets flow)) (dec_u64 (flow_PacketCount flow))
        (formatBytes (flow_ByteCount flow)))"

text \<open>The scroll position the table is drawn at, for \<open>n\<close> flows that can be displayed.\<close>

definition clamp_table_scroll :: "int \<Rightarrow> int \<Rightarrow> int \<Rightarrow> int" where
  "clamp_table_scroll scroll n rows =
     (let s = (if scroll > n - rows then n - rows else scroll) in if s < 0 then 0 else s)"

definition hidden_row :: "screen \<Rightarrow> int \<Rightarrow> int \<Rightarrow> string list" where
  "hidden_row v hiddenTop hiddenBottom =
     (if hiddenTop > 0 \<or> hiddenBottom > 0
      then [render v table_style (box_v @ '' '' @ pad_right 73 '''' @ '' ['' @ dec_int hiddenTop @ '' up, '' @
              dec_int hiddenBottom @ '' down] '' @ box_v)]
      else [])"

fun flow_rows :: "store \<Rightarrow> nat list \<Rightarrow> int \<Rightarrow> int list \<Rightarrow> string list go" where
  "flow_rows st displayFlows selected [] = Inr []"
| "flow_rows st displayFlows selected (i # is) =
     gbind (gidx displayFlows i) (\<lambda>r.
     gbind (flow_rows st displayFlows selected is) (\<lambda>rest. Inr (flow_row st r (i = selected) # rest)))"

definition renderFlowsTable :: "screen \<Rightarrow> store \<Rightarrow> Dashboard \<Rightarrow> (Dashboard \<times> string) go" where
  "renderFlowsTable v st d =
     (let availableRows = table_rows (d_height d) in
      if length (d_flows d) = 0 then
        Inr (d, join_lines v (table_head v @
               [render v table_style (table_cells (pad_right 17 ''(no flows)'') '''' '''' '''' '''' '''' '''')] @ table_foot v))
      else
        let displayFlows = take 200 (d_flows d);
            d1 = d\<lparr>d_tableScroll := clamp_table_scroll (d_tableScroll d) (int (length displayFlows)) availableRows\<rparr>;
            startIdx = d_tableScroll d1;
            endIdx = (if startIdx + availableRows > int (length displayFlows) then int (length displayFlows)
                      else startIdx + availableRows) in
        gbind (flow_rows st displayFlows (d_selectedFlow d) [startIdx..endIdx - 1]) (\<lambda>rows.
        Inr (d1, join_lines v (table_head v @ rows @
               hidden_row v (d_tableScroll d1) (int (length (d_flows d)) - endIdx) @ table_foot v))))"

subsection \<open>Statistics and the protocol distribution\<close>

text \<open>Packets per protocol.\<close>

definition proto_counts :: "store \<Rightarrow> nat list \<Rightarrow> (string, u64) gmap" where
  "proto_counts st flows =
     foldl (\<lambda>m r. gmap_add m (flow_Protocol (flow_at st r)) (flow_PacketCount (flow_at st r))) [] flows"

text \<open>The protocol with the largest count, and the count.\<close>

definition top_proto :: "(string, u64) gmap \<Rightarrow> string \<times> u64" where
  "top_proto m = foldl (\<lambda>(top, most) (proto, n). if n > most then (proto, n) else (top, most)) ('''', 0) m"

definition renderRealTimeStats :: "screen \<Rightarrow> store \<Rightarrow> Dashboard \<Rightarrow> string" where
  "renderRealTimeStats v st d =
     (let width = half_width d;
          history = d_throughputHistory d;
          (pps, bps) = (if length history > 0
            then (f_u64 (ts_PacketsPerSec (last history)), f_u64 (ts_BytesPerSec (last history)))
            else (F64 0, F64 0));
          mbps = f_div bps (f_int (1024 * 1024));
          (topProto, topProtoCount) = top_proto (v_visit_protos v (proto_counts st (d_allFlows d)))
      in join_lines v
        [box_tl @ box_h @ '' REAL-TIME STATS '' @ repeatStr box_h (width - 19) @ box_tr,
         box_v @ '' Rate: '' @ pad_left 6 (fixed 0 pps) @ '' pps '' @ box_v @ '' '' @ pad_left 6 (fixed 2 mbps) @ '' Mbps '' @ box_v,
         box_v @ '' Top Proto: '' @ pad_right 4 topProto @ '' '' @ box_v @ '' Flows: '' @ pad_left 3 (dec (length (d_allFlows d))) @ '' '' @ box_v,
         box_bl @ repeatStr box_h (width - 2) @ box_br])"

definition proto_bar :: "int \<Rightarrow> u64 \<Rightarrow> string \<times> u64 \<Rightarrow> string" where
  "proto_bar width totalPackets = (\<lambda>(name, n).
     let pct = f_mul (f_div (f_u64 n) (f_u64 totalPackets)) (f_int 100);
         len = f_trunc (f_mul (f_div pct (f_int 100)) (f_int (width - 22)));
         barLen = (if len < 1 then 1 else len);
         bar = repeatStr full_block barLen @ repeatStr light_shade ((width - 22) - barLen)
     in box_v @ '' '' @ pad_right 4 name @ '' '' @ bar @ '' '' @ pad_left 5 (fixed 1 pct) @ ''% '' @ box_v)"

definition renderProtocolDistribution :: "screen \<Rightarrow> store \<Rightarrow> Dashboard \<Rightarrow> string" where
  "renderProtocolDistribution v st d =
     (let width = half_width d;
          protoStats = proto_counts st (d_allFlows d);
          totalPackets = foldl (\<lambda>t r. t + flow_PacketCount (flow_at st r)) 0 (d_allFlows d) in
      if totalPackets = 0 then
        box_tl @ box_h @ '' PROTOCOL DISTRIBUTION '' @ box_tr @ [CHR 0x0A] @ box_v @ '' No data                  '' @ box_v @ [CHR 0x0A] @ box_bl @ reps 26 box_h @ box_br
      else
        let protos = v_sort_protos v (\<lambda>a b. snd a > snd b) (v_visit_protos v protoStats) in
        join_lines v
          ([box_tl @ box_h @ '' PROTOCOL DIST '' @ repeatStr box_h (width - 17) @ box_tr] @
           map (proto_bar width totalPackets) protos @
           [box_bl @ repeatStr box_h (width - 2) @ box_br]))"

subsection \<open>The sparkline\<close>

definition sparkChars :: "string list" where
  "sparkChars = map utf8 [0x2581, 0x2582, 0x2583, 0x2584, 0x2585, 0x2586, 0x2587, 0x2588]"

definition max_bps :: "ThroughputSample list \<Rightarrow> u64" where
  "max_bps history = foldl (\<lambda>m s. if ts_BytesPerSec s > m then ts_BytesPerSec s else m) 0 history"

definition spark_index :: "u64 \<Rightarrow> u64 \<Rightarrow> int" where
  "spark_index maxBps bps =
     (let ratio = f_div (f_u64 bps) (f_u64 maxBps); idx = f_trunc (f_mul ratio (f_int 7)) in
      if idx > 7 then 7 else idx)"

fun spark_loop :: "u64 \<Rightarrow> ThroughputSample list \<Rightarrow> string \<Rightarrow> string go" where
  "spark_loop maxBps [] sparkline = Inr sparkline"
| "spark_loop maxBps (s # ss) sparkline =
     gbind (gidx sparkChars (spark_index maxBps (ts_BytesPerSec s))) (\<lambda>c. spark_loop maxBps ss (sparkline @ c))"

definition renderTrafficSparkline :: "screen \<Rightarrow> Dashboard \<Rightarrow> string go" where
  "renderTrafficSparkline v d =
     (let width = (if d_width d - 4 < 20 then 20 else d_width d - 4);
          head = box_tl @ box_h @ '' THROUGHPUT (Mbps) '' @ repeatStr box_h (width - 23) @ box_tr;
          foot = box_bl @ repeatStr box_h (width - 2) @ box_br;
          history = d_throughputHistory d in
      if length history = 0 then
        Inr (join_lines v [head, box_v @ '' '' @ repeatStr '' '' (width - 2) @ '' '' @ box_v, foot])
      else
        let maxBps = (if max_bps history = 0 then 1 else max_bps history);
            availableWidth = width - 4;
            startIdx = (if int (length history) > availableWidth then int (length history) - availableWidth else 0) in
        gbind (spark_loop maxBps (drop (nat startIdx) history) '''') (\<lambda>spark.
        let sparkline = (if int (length spark) < availableWidth
                         then spark @ repeatStr '' '' (availableWidth - int (length spark)) else spark);
            maxMbps = f_div (f_u64 maxBps) (f_int (1024 * 1024)) in
        Inr (join_lines v
          [head,
           box_v @ '' '' @ sparkline @ '' '' @ box_v,
           box_v @ '' Peak: '' @ pad_left 8 (fixed 1 maxMbps) @ '' Mbps '' @ repeatStr '' '' (width - 24) @ '' '' @ box_v,
           foot])))"

subsection \<open>Top talkers and top ports\<close>

text \<open>A line cut to the width of the widget, in bytes.\<close>

definition cut_line :: "int \<Rightarrow> string \<Rightarrow> string go" where
  "cut_line width line = gslice line 0 (min_int (int (length line)) (width + 2))"

text \<open>The numbered lines of the first \<open>n\<close> entries.\<close>

fun ranked_lines :: "('a \<Rightarrow> string) \<Rightarrow> int \<Rightarrow> 'a list \<Rightarrow> nat \<Rightarrow> nat \<Rightarrow> string list go" where
  "ranked_lines text width entries i 0 = Inr []"
| "ranked_lines text width entries i (Suc n) =
     gbind (gindex entries i) (\<lambda>e.
     gbind (cut_line width (box_v @ '' '' @ dec (i + 1) @ ''. '' @ text e @ '' '' @ box_v)) (\<lambda>line.
     gbind (ranked_lines text width entries (i + 1) n) (\<lambda>rest. Inr (line # rest))))"

definition talker_text :: "store \<Rightarrow> nat \<Rightarrow> string" where
  "talker_text st r =
     (let flow = flow_at st r; label = shortIP (flow_SrcIP flow) @ arrow_right @ shortIP (flow_DstIP flow) in
      pad_right 10 label @ '' '' @ pad_left 8 (formatBytes (flow_ByteCount flow)))"

definition top_count :: "'a list \<Rightarrow> nat" where
  "top_count xs = (if length xs < 5 then length xs else 5)"

definition renderTopTalkers :: "screen \<Rightarrow> store \<Rightarrow> Dashboard \<Rightarrow> string go" where
  "renderTopTalkers v st d =
     (let width = half_width d;
          sorted = v_sort_flows v (\<lambda>i j. flow_ByteCount (flow_at st i) > flow_ByteCount (flow_at st j)) (d_allFlows d) in
      gbind (if top_count sorted = 0 then Inr [box_v @ '' No flows                 '' @ box_v]
             else ranked_lines (talker_text st) width sorted 0 (top_count sorted)) (\<lambda>rows.
      Inr (join_lines v
        ([box_tl @ box_h @ '' TOP TALKERS '' @ repeatStr box_h (width - 14) @ box_tr] @ rows @
         [box_bl @ repeatStr box_h (width - 2) @ box_br]))))"

definition port_counts :: "store \<Rightarrow> nat list \<Rightarrow> (u16, u64) gmap" where
  "port_counts st flows =
     foldl (\<lambda>m r. gmap_add m (flow_TopDstPort (flow_at st r)) (flow_PacketCount (flow_at st r))) [] flows"

definition port_text :: "u16 \<times> u64 \<Rightarrow> string" where
  "port_text = (\<lambda>(port, n). ''Port '' @ pad_right 5 (dec (unat port)) @ '' '' @ pad_right 8 (getServiceName port))"

definition renderPortAnalyzer :: "screen \<Rightarrow> store \<Rightarrow> Dashboard \<Rightarrow> string go" where
  "renderPortAnalyzer v st d =
     (let width = half_width d;
          entries = filter (\<lambda>(port, n). port > 0) (v_visit_ports v (port_counts st (d_allFlows d)));
          ports = v_sort_ports v (\<lambda>a b. snd a > snd b) entries in
      gbind (if top_count ports = 0 then Inr [box_v @ '' No ports                 '' @ box_v]
             else ranked_lines port_text width ports 0 (top_count ports)) (\<lambda>rows.
      Inr (join_lines v
        ([box_tl @ box_h @ '' TOP PORTS '' @ repeatStr box_h (width - 13) @ box_tr] @ rows @
         [box_bl @ repeatStr box_h (width - 2) @ box_br]))))"

subsection \<open>The status log\<close>

definition level_icon :: "string \<Rightarrow> string" where
  "level_icon level =
     (if level = ''warn'' then warning_sign else if level = ''error'' then cross_mark
      else if level = ''info'' then check_mark else middle_dot)"

definition status_line :: "(time \<Rightarrow> int) \<Rightarrow> int \<Rightarrow> StatusMessage \<Rightarrow> string go" where
  "status_line zone width m =
     (let maxMsgLen = (if width - 15 < 10 then 10 else width - 15) in
      gbind (shorten maxMsgLen (maxMsgLen - 3) (msg_Message m)) (\<lambda>msgText.
      let line = box_v @ '' '' @ level_icon (msg_Level m) @ '' '' @ clock zone (msg_Time m) @ '' '' @ msgText in
      if int (length line) < width
      then Inr (line @ repeatStr '' '' (width - int (length line)) @ box_v)
      else gbind (gslice line 0 (width - 1)) (\<lambda>l. Inr (l @ box_v))))"

fun status_lines :: "(time \<Rightarrow> int) \<Rightarrow> int \<Rightarrow> StatusMessage list \<Rightarrow> string list go" where
  "status_lines zone width [] = Inr []"
| "status_lines zone width (m # ms) =
     gbind (status_line zone width m) (\<lambda>line.
     gbind (status_lines zone width ms) (\<lambda>rest. Inr (line # rest)))"

definition renderStatusLog :: "screen \<Rightarrow> Dashboard \<Rightarrow> string go" where
  "renderStatusLog v d =
     (let width = (if d_width d - 4 < 30 then 30 else d_width d - 4) in
      gbind (case v_reader v of
               None \<Rightarrow> Inr [box_v @ '' (no reader) '' @ repeatStr '' '' (width - 15) @ box_v]
             | Some er \<Rightarrow>
                 gbind (GetRecent (er_Status er) 4) (\<lambda>msgs.
                 if length msgs = 0 then Inr [box_v @ '' (no messages) '' @ repeatStr '' '' (width - 17) @ box_v]
                 else status_lines (v_zone v) width msgs)) (\<lambda>rows.
      Inr (join_lines v
        ([box_tl @ box_h @ '' STATUS LOG '' @ repeatStr box_h (width - 14) @ box_tr] @ rows @
         [box_bl @ repeatStr box_h (width - 2) @ box_br]))))"

subsection \<open>The dialogs\<close>

definition title_style :: "style_rule list" where
  "title_style = [Bold, Foreground ''39'']"

definition dialog_head :: "screen \<Rightarrow> string \<Rightarrow> string list" where
  "dialog_head v subtitle =
     [render v title_style (reps 65 dbl_h), '''', render v title_style subtitle, render v title_style (reps 65 dbl_h), '''']"

definition renderHelp :: "screen \<Rightarrow> string" where
  "renderHelp v = join_lines v (dialog_head v ''KEYBOARD SHORTCUTS'' @
     [''Navigation:'',
      ''  ['' @ arrow_up @ ''] or [K]           Move up in flow table'',
      ''  ['' @ arrow_down @ ''] or [J]           Move down in flow table'',
      ''  [Page Up]            Scroll main view up (10 lines)'',
      ''  [Page Down]          Scroll main view down (10 lines)'',
      ''  [Mouse Wheel]        Scroll main view (3 lines per tick)'',
      ''  '',
      ''Flow View:'',
      ''  [Enter]              Drill into selected flow for details'',
      ''  [P]                  Pause/resume packet capture'',
      ''  [S]                  Cycle sort order (bytes/packets/duration)'',
      ''  [F]                  Filter by protocol'',
      ''  '',
      ''Drill-Down View:'',
      ''  ['' @ arrow_up @ ''] or [K]           Scroll up in packet history'',
      ''  ['' @ arrow_down @ ''] or [J]           Scroll down in packet history'',
      ''  [Page Up/Down]       Scroll 10 lines'',
      ''  [Mouse Wheel]        Scroll (3 lines per tick)'',
      ''  [ESC] or [Q]         Exit drill-down and return to main view'',
      ''  '',
      ''General:'',
      ''  [?]                  Show this help'',
      ''  [Q]                  Quit JOPIL'',
      '''',
      ''  Press [ESC] or [Q] to close this help''])"

definition proto_option :: "string \<Rightarrow> string \<Rightarrow> string" where
  "proto_option filterInput proto =
     (if proto = filterInput then pointer @ '' '' else ''  '') @ (if proto = '''' then ''(none - show all)'' else proto)"

definition renderFilterDialog :: "screen \<Rightarrow> Dashboard \<Rightarrow> string" where
  "renderFilterDialog v d = join_lines v (dialog_head v ''SELECT PROTOCOL FILTER'' @
     map (proto_option (d_filterInput d)) (d_availableProtos d) @
     ['''', ''  [ENTER] Apply  '' @ box_v @ ''  [ESC] Cancel  '' @ box_v @ ''  ['' @ arrow_up @ arrow_down @ ''] Navigate''])"

end
