(* ===== verification/View.thy ===== *)
theory View
  imports Widgets
begin

text \<open>
  The screens of \<^verbatim>\<open>internal/tui/dashboard.go\<close>: the drill-down of a flow and \<open>View\<close>, which bubbletea calls after every
  message. Drawing clamps the scroll positions and takes a throughput sample, so it returns the dashboard too.
\<close>

subsection \<open>The drill-down\<close>

definition drill_details :: "screen \<Rightarrow> Flow \<Rightarrow> string list" where
  "drill_details v flow =
     [render v [Bold, Foreground ''39''] ''FLOW DETAILS'',
      reps 17 box_h,
      '''',
      ''Src: '' @ IP_String (flow_SrcIP flow),
      ''Dst: '' @ IP_String (flow_DstIP flow),
      '''',
      ''Proto: '' @ flow_Protocol flow,
      ''State: '' @ flow_State flow,
      ''Dur: '' @ formatDuration (time_Sub (flow_LastPacketTime flow) (flow_FirstPacketTime flow)),
      '''',
      ''Packets: '' @ dec_u64 (flow_PacketCount flow),
      arrow_right @ '' '' @ dec_u64 (flow_ForwardPackets flow) @ '' | '' @ arrow_left @ '' '' @ dec_u64 (flow_ReversePackets flow),
      '''',
      ''Bytes: '' @ formatBytes (flow_ByteCount flow),
      arrow_right @ '' '' @ formatBytes (flow_ForwardBytes flow),
      arrow_left @ '' '' @ formatBytes (flow_ReverseBytes flow),
      '''',
      ''Src Port: '' @ dec (unat (flow_TopSrcPort flow)),
      ''  ('' @ dec (length (flow_SrcPorts flow)) @ '' vars)'',
      ''Dst Port: '' @ dec (unat (flow_TopDstPort flow)),
      ''  ('' @ dec (length (flow_DstPorts flow)) @ '' vars)'',
      '''']"

text \<open>A state lasts until the next change, the current one until now.\<close>

fun state_lines :: "screen \<Rightarrow> TCPStateChange list \<Rightarrow> string list" where
  "state_lines v [] = []"
| "state_lines v (change # rest) =
     (let duration = (case rest of next # _ \<Rightarrow> time_Sub (sc_Timestamp next) (sc_Timestamp change)
                      | [] \<Rightarrow> time_Sub (v_drill_now v) (sc_Timestamp change))
      in render v [Foreground (getStateColor (sc_NewState change))]
           (getStateEmoji (sc_NewState change) @ '' '' @ sc_NewState change @ '' ('' @ formatDuration duration @ '')'')
         # state_lines v rest)"

definition drill_states :: "screen \<Rightarrow> Flow \<Rightarrow> string list" where
  "drill_states v flow =
     (if flow_Protocol flow = ''tcp'' \<and> length (flow_StateChanges flow) > 0
      then [render v [Bold, Foreground ''39''] ''TCP States:''] @ state_lines v (flow_StateChanges flow) @ ['''']
      else [])"

fun domain_loop :: "int \<Rightarrow> (string \<times> bool) list \<Rightarrow> string list go" where
  "domain_loop n [] = Inr []"
| "domain_loop n ((domain, _) # rest) =
     (if n \<ge> 3 then Inr []
      else gbind (shorten 18 15 domain) (\<lambda>shortened.
           gbind (domain_loop (n + 1) rest) (\<lambda>more. Inr ((''  '' @ bullet @ '' '' @ shortened) # more))))"

definition drill_dns :: "screen \<Rightarrow> Flow \<Rightarrow> string list go" where
  "drill_dns v flow =
     (if length (flow_DNSQueries flow) > 0 then
        let uniqueDomains = foldl (\<lambda>m q. AList.update (dq_Domain q) True m) [] (flow_DNSQueries flow) in
        gbind (domain_loop 0 (v_visit_domains v uniqueDomains)) (\<lambda>domains.
        Inr ([render v [Bold, Foreground ''39''] ''DNS:'',
              ''Queries: '' @ dec (length (flow_DNSQueries flow)),
              ''Domains: '' @ dec (length uniqueDomains)] @ domains))
      else Inr [])"

text \<open>A loop that appends empty lines.\<close>

definition pad_lines :: "int \<Rightarrow> string list \<Rightarrow> string list" where
  "pad_lines rows lines = lines @ replicate (nat (rows - int (length lines))) ''''"

definition cut_lines :: "int \<Rightarrow> string list \<Rightarrow> string list go" where
  "cut_lines rows lines = (if int (length lines) > rows then gslice lines 0 rows else Inr lines)"

definition packet_line :: "(time \<Rightarrow> int) \<Rightarrow> PacketRecord \<Rightarrow> string go" where
  "packet_line zone pkt =
     (let dirArrow = (if rec_Direction pkt = ''reverse'' then arrow_left else arrow_right) in
      gbind (shorten 13 10 (IP_String (rec_SrcIP pkt))) (\<lambda>srcIP.
      gbind (shorten 13 10 (IP_String (rec_DstIP pkt))) (\<lambda>dstIP.
      Inr (clock_centis zone (rec_Timestamp pkt) @ '' '' @ box_v @ '' '' @ dirArrow @ '' '' @ box_v @ '' '' @ srcIP @ '' '' @ box_v @ '' '' @ dstIP @ '' '' @ box_v @ '' '' @
           dec (unat (rec_Length pkt))))))"

text \<open>The newest packet first: \<open>i\<close> packets are left to print.\<close>

fun packet_lines :: "(time \<Rightarrow> int) \<Rightarrow> PacketRecord list \<Rightarrow> nat \<Rightarrow> string list go" where
  "packet_lines zone pkts 0 = Inr []"
| "packet_lines zone pkts (Suc i) =
     gbind (gindex pkts i) (\<lambda>pkt.
     gbind (packet_line zone pkt) (\<lambda>line.
     gbind (packet_lines zone pkts i) (\<lambda>rest. Inr (line # rest))))"

definition drill_history :: "screen \<Rightarrow> PacketRecord list \<Rightarrow> string list go" where
  "drill_history v pkts =
     gbind (if length pkts = 0 then Inr [''(no packets)''] else packet_lines (v_zone v) pkts (length pkts)) (\<lambda>rows.
     Inr ([render v [Bold, Foreground ''39''] ''PACKET HISTORY'',
           reps 41 box_h,
           ''Time       '' @ box_v @ '' Dir '' @ box_v @ '' Src IP        '' @ box_v @ '' Dst IP        '' @ box_v @ '' Len'',
           reps 11 box_h @ box_cross @ reps 5 box_h @ box_cross @ reps 15 box_h @ box_cross @ reps 15 box_h @ box_cross @ reps 3 box_h] @ rows))"

text \<open>The scroll position when \<open>n\<close> lines are shown in \<open>rows\<close> rows.\<close>

definition clamp_scroll :: "int \<Rightarrow> int \<Rightarrow> int \<Rightarrow> int" where
  "clamp_scroll scroll n rows =
     (let maxScroll = (if n - rows < 0 then 0 else n - rows) in if scroll > maxScroll then maxScroll else scroll)"

definition renderDrillDown :: "screen \<Rightarrow> store \<Rightarrow> Dashboard \<Rightarrow> (Dashboard \<times> string) go" where
  "renderDrillDown v st d =
     (if d_drillFlowIdx d \<ge> int (length (d_frozenFlows d)) then Inr (d, ''Flow not found'')
      else
        gbind (gidx (d_frozenFlows d) (d_drillFlowIdx d)) (\<lambda>r.
        let flow = flow_at st r;
            totalWidth = d_width d - 4;
            leftColWidth = (if totalWidth * 60 sdiv 100 < 30 then 30 else totalWidth * 60 sdiv 100);
            rightColWidth = (if totalWidth * 40 sdiv 100 < 20 then 20 else totalWidth * 40 sdiv 100);
            availableRows = d_height d - 3 in
        gbind (drill_dns v flow) (\<lambda>dns.
        gbind (cut_lines availableRows (pad_lines availableRows (drill_details v flow @ drill_states v flow @ dns))) (\<lambda>rightLines.
        gbind (drill_history v (d_cachedPackets d)) (\<lambda>leftLines.
        let d1 = d\<lparr>d_drillScroll := clamp_scroll (d_drillScroll d) (int (length leftLines)) availableRows\<rparr> in
        gbind (gslice leftLines (d_drillScroll d1) (int (length leftLines))) (\<lambda>scrolled.
        gbind (cut_lines availableRows scrolled) (\<lambda>scrolled.
        let leftCol = render v [Width leftColWidth, Height availableRows] (join_lines v (pad_lines availableRows scrolled));
            rightCol = render v [Width rightColWidth, Height availableRows, BorderLeft, RoundedBorder, Padding 0 1]
                         (join_lines v rightLines);
            mainContent = lg_JoinHorizontal (v_lip v) [leftCol, rightCol];
            footer = render v [Foreground ''240''] (''[ESC/Q] Back | ['' @ arrow_up @ arrow_down @ ''/K/J] Scroll | [PgUp/PgDn] Jump'')
        in Inr (d1, join_lines v [mainContent, '''', footer]))))))))"

subsection \<open>The main view\<close>

text \<open>All lines of the main view, top to bottom, and the dashboard after its widgets are drawn.\<close>

definition main_lines :: "screen \<Rightarrow> store \<Rightarrow> Dashboard \<Rightarrow> (Dashboard \<times> string list) go" where
  "main_lines v st d =
     (let d1 = updateThroughputHistory (v_oob v) (v_now v) (v_reader v) (v_lookup v) d;
          topRow = lg_JoinHorizontal (v_lip v) [renderRealTimeStats v st d1, ''  '', renderProtocolDistribution v st d1] in
      gbind (renderTrafficSparkline v d1) (\<lambda>sparkline.
      gbind (renderFlowsTable v st d1) (\<lambda>(d2, table).
      gbind (renderTopTalkers v st d2) (\<lambda>talkers.
      gbind (renderPortAnalyzer v st d2) (\<lambda>ports.
      gbind (renderStatusLog v d2) (\<lambda>status.
      let bottomRow = lg_JoinHorizontal (v_lip v) [talkers, ''  '', ports] in
      Inr (d2, splitLines (renderHeader v) @ [''''] @ splitLines topRow @ [''''] @ splitLines sparkline @ [''''] @
               splitLines table @ [''''] @ splitLines bottomRow @ [''''] @ splitLines status @ [''''] @
               splitLines (renderFooter v d2))))))))"

definition View :: "screen \<Rightarrow> store \<Rightarrow> Dashboard \<Rightarrow> (Dashboard \<times> string) go" where
  "View v st d =
     (if d_width d = 0 then Inr (d, ''Initializing...'')
      else if d_helpMode d then Inr (d, renderHelp v)
      else if d_filterMode d then Inr (d, renderFilterDialog v d)
      else if d_drillMode d \<and> d_drillFlowIdx d < int (length (d_flows d)) then renderDrillDown v st d
      else
        gbind (main_lines v st d) (\<lambda>(d1, allLines).
        let availableRows = (if d_height d1 < 10 then 10 else d_height d1);
            d2 = d1\<lparr>d_mainScroll := clamp_scroll (d_mainScroll d1) (int (length allLines)) availableRows\<rparr> in
        gbind (gslice allLines (d_mainScroll d2) (int (length allLines))) (\<lambda>visibleLines.
        gbind (cut_lines availableRows visibleLines) (\<lambda>visibleLines.
        Inr (d2, join_lines v visibleLines)))))"

end
