(* ===== verification/SharedStore.thy ===== *)
theory SharedStore
  imports Conversations
begin

text \<open>
  What every operation of the aggregator keeps of the store it shares with the dashboard: pointers stay
  valid, histories stay well formed, and a flow never changes its identity or its history.
\<close>

definition store_ok :: "store \<Rightarrow> bool" where
  "store_ok st \<longleftrightarrow>
     (\<forall>f \<in> set (st_flows st). flow_PacketHistory f < length (st_rings st)) \<and>
     (\<forall>rb \<in> set (st_rings st). ring_inv rb)"

definition same_identity :: "Flow \<Rightarrow> Flow \<Rightarrow> bool" where
  "same_identity f g \<longleftrightarrow> flow_SrcIP f = flow_SrcIP g \<and> flow_DstIP f = flow_DstIP g \<and>
     flow_Protocol f = flow_Protocol g"

definition extends :: "store \<Rightarrow> store \<Rightarrow> bool" where
  "extends st st' \<longleftrightarrow> length (st_flows st) \<le> length (st_flows st') \<and>
     (\<forall>r < length (st_flows st). same_identity (st_flows st' ! r) (st_flows st ! r))"

lemma extends_refl [simp]: "extends st st"
  by (simp add: extends_def same_identity_def)

lemma extends_trans: "extends a b \<Longrightarrow> extends b c \<Longrightarrow> extends a c"
  by (force simp: extends_def same_identity_def)

lemma store_ok_update:
  assumes "store_ok st" and "r < length (st_flows st)" and "flow_PacketHistory f < length (st_rings st)"
    and "ring_inv rb"
  shows "store_ok (st\<lparr>st_flows := (st_flows st)[r := f], st_rings := (st_rings st)[h := rb]\<rparr>)"
  using assms by (auto simp: store_ok_def dest!: subsetD [OF set_update_subset_insert])

lemma extends_update:
  assumes "same_identity f (st_flows st ! r)"
  shows "extends st (st\<lparr>st_flows := (st_flows st)[r := f], st_rings := rings\<rparr>)"
proof -
  have "same_identity ((st_flows st)[r := f] ! q) (st_flows st ! q)" if "q < length (st_flows st)" for q
    using that assms by (cases "q = r") (simp_all add: same_identity_def)
  then show ?thesis by (simp add: extends_def)
qed

lemma same_identity_updates:
  "same_identity (update_tcp now e (update_dns now qs names (update_ports e (update_counters now e b f)))) f"
  by (simp add: same_identity_def update_tcp_def update_dns_def update_ports_def Let_def)

lemma history_updates:
  "flow_PacketHistory (update_tcp now e (update_dns now qs names (update_ports e (update_counters now e b f)))) =
     flow_PacketHistory f"
  by simp

lemma get_or_create_store:
  assumes ok: "store_ok st" and size: "0 < fa_packetBufferSize fa"
    and run: "get_or_create now evt (fa, st) = Inr (r, fa', st')"
  shows "store_ok st' \<and> extends st st'"
proof (cases "map_of (fa_flows fa) (getFlowKey evt)")
  case (Some ref)
  then show ?thesis using run ok by (simp add: get_or_create_def)
next
  case None
  then obtain rb where rb: "NewRingBuffer (fa_packetBufferSize fa) = Inr rb"
    and st': "st' = st\<lparr>st_flows := st_flows st @ [new_flow now evt (length (st_rings st))],
                       st_rings := st_rings st @ [rb]\<rparr>"
    using run by (auto simp: get_or_create_def Let_def gbind_Inr_iff)
  have "ring_inv rb" by (rule ring_invI_new [OF size rb])
  then show ?thesis
    using ok by (auto simp: st' store_ok_def extends_def same_identity_def nth_append new_flow_def)
qed

lemma processEvent_store:
  assumes ok: "store_ok st" and size: "0 < fa_packetBufferSize fa"
    and run: "processEvent now evt (fa, st) = Inr (fa', st')"
  shows "store_ok st' \<and> extends st st'"
proof -
  let ?fa = "fa\<lparr>fa_globalStats := (fa_globalStats fa)\<lparr>gs_TotalPackets := gs_TotalPackets (fa_globalStats fa) + 1,
       gs_TotalBytes := gs_TotalBytes (fa_globalStats fa) + ucast (evt_Len evt), gs_LastUpdated := now\<rparr>\<rparr>"
  from run obtain qs names r st1 rc ring' where
    gc: "get_or_create now evt (?fa, st) = Inr (r, fa', st1)" and r: "r < length (st_flows st1)"
    and h: "flow_PacketHistory (st_flows st1 ! r) < length (st_rings st1)"
    and ring: "Add (st_rings st1 ! flow_PacketHistory (st_flows st1 ! r)) (Some rc) = Inr ring'"
    and st': "st' = st1\<lparr>st_flows := (st_flows st1)[r := update_tcp now evt (update_dns now qs names
         (update_ports evt (update_counters now evt (is_forward evt (st_flows st1 ! r)) (st_flows st1 ! r))))],
         st_rings := (st_rings st1)[flow_PacketHistory (st_flows st1 ! r) := ring']\<rparr>"
    by (auto simp: processEvent_def gbind_Inr_iff Let_def deref_def split: prod.splits if_splits)
  from get_or_create_store [OF ok _ gc] size have st1: "store_ok st1" "extends st st1" by simp_all
  have "ring_inv (st_rings st1 ! flow_PacketHistory (st_flows st1 ! r))"
    using st1(1) h by (simp add: store_ok_def)
  then have "ring_inv ring'" using ring.add_keeps ring by blast
  then have "store_ok st'"
    unfolding st' using st1(1) r h by (intro store_ok_update) simp_all
  moreover have "extends st1 st'" unfolding st' by (rule extends_update) (rule same_identity_updates)
  ultimately show ?thesis using extends_trans [OF st1(2)] by blast
qed

lemma close_flows_store:
  assumes "store_ok st"
  shows "store_ok (close_flows now timeout xs st) \<and> extends st (close_flows now timeout xs st)"
  using assms by (auto simp: store_ok_def extends_def same_identity_def close_flows_def)

lemma agg_step_store:
  assumes ok: "store_ok st" and sim: "sim m (fa, st)" and op: "op_ok op"
    and run: "agg_step (fa, st) op = Inr (fa', st')"
  shows "store_ok st' \<and> extends st st'"
proof (cases op)
  case (Event now evt)
  then show ?thesis
    using processEvent_store [OF ok _ , of fa now evt fa' st'] sim run by (simp add: sim_def)
next
  case (Idle visit now)
  then have "range_order visit" using op by simp
  from closeIdleFlows_sim [OF sim this, of now] Idle run close_flows_store [OF ok] show ?thesis by auto
qed

lemma store_ok_empty: "store_ok empty_store"
  by (simp add: store_ok_def empty_store_def)

end
