(* ===== verification/DashboardProps.thy ===== *)
theory DashboardProps
  imports Dashboard SharedStore Sorting
begin

text \<open>
  The dashboard's handlers: the invariant they keep, what a refresh shows, and that the dashboard does
  not disturb the aggregator whose flows it holds.
\<close>

subsection \<open>Sorting\<close>

definition flow_key :: "string \<Rightarrow> store \<Rightarrow> nat \<Rightarrow> int" where
  "flow_key sortBy st i = (let f = flow_at st i in
     if sortBy = ''latest'' then flow_LastPacketTime f
     else if sortBy = ''packets'' then uint (flow_PacketCount f)
     else if sortBy = ''duration'' then time_Sub (flow_LastPacketTime f) (flow_FirstPacketTime f)
     else uint (flow_ByteCount f))"

lemma flow_less_key: "flow_less sortBy st = (\<lambda>i j. flow_key sortBy st j < flow_key sortBy st i)"
  by (intro ext) (simp add: flow_less_def flow_key_def Let_def word_less_def)

lemma sortFlows_frame [simp]:
  "d_selectedFlowId (sortFlows s st d) = d_selectedFlowId d" "d_selectedFlow (sortFlows s st d) = d_selectedFlow d"
  "d_mainScroll (sortFlows s st d) = d_mainScroll d" "d_tableScroll (sortFlows s st d) = d_tableScroll d"
  "d_drillScroll (sortFlows s st d) = d_drillScroll d" "d_drillFlowIdx (sortFlows s st d) = d_drillFlowIdx d"
  "d_frozenFlows (sortFlows s st d) = d_frozenFlows d" "d_drillMode (sortFlows s st d) = d_drillMode d"
  "d_availableProtos (sortFlows s st d) = d_availableProtos d" "d_filterInput (sortFlows s st d) = d_filterInput d"
  "d_filterProto (sortFlows s st d) = d_filterProto d" "d_sortBy (sortFlows s st d) = d_sortBy d"
  "d_throughputHistory (sortFlows s st d) = d_throughputHistory d" "d_shared (sortFlows s st d) = d_shared d"
  "d_paused (sortFlows s st d) = d_paused d" "d_height (sortFlows s st d) = d_height d"
  "d_cachedPackets (sortFlows s st d) = d_cachedPackets d" "d_width (sortFlows s st d) = d_width d"
  by (simp_all add: sortFlows_def Let_def)

lemma sortFlows_flows:
  "d_flows (sortFlows s st d) = s (flow_less (d_sortBy d) st) (d_flows d)"
  "d_allFlows (sortFlows s st d) = (if d_shared d then s (flow_less (d_sortBy d) st) (d_flows d) else d_allFlows d)"
  by (simp_all add: sortFlows_def Let_def)

subsection \<open>Refreshing: the loops of \<open>updateFlows\<close>\<close>

text \<open>The identities of a list of flows.\<close>

abbreviation ids :: "store \<Rightarrow> nat list \<Rightarrow> string list" where
  "ids st rs \<equiv> map (\<lambda>r. getFlowId (flow_at st r)) rs"

lemma getFlowId_cong: "same_identity f g \<Longrightarrow> getFlowId f = getFlowId g"
  by (simp add: same_identity_def getFlowId_def)

lemma copy_stats_identity [simp]: "same_identity (copy_stats new cur) cur"
  by (simp add: same_identity_def copy_stats_def)

lemma copy_stats_self [simp]: "copy_stats f f = f"
  by (simp add: copy_stats_def)

lemma map_of_foldl_update:
  assumes "distinct (map f rs)"
  shows "map_of (foldl (\<lambda>m r. AList.update (f r) r m) m rs) k = Some r \<longleftrightarrow>
    (r \<in> set rs \<and> f r = k) \<or> (k \<notin> f ` set rs \<and> map_of m k = Some r)"
  using assms
proof (induction rs arbitrary: m)
  case (Cons x rs)
  then have IH: "map_of (foldl (\<lambda>m r. AList.update (f r) r m) (AList.update (f x) x m) rs) k = Some r \<longleftrightarrow>
    (r \<in> set rs \<and> f r = k) \<or> (k \<notin> f ` set rs \<and> map_of (AList.update (f x) x m) k = Some r)"
    by simp
  have "f x \<notin> f ` set rs" using Cons.prems by simp
  then show ?case unfolding foldl_Cons IH by (auto simp: update_conv')
qed simp

lemma map_of_new_flow_map:
  assumes "distinct (ids st rs)"
  shows "map_of (new_flow_map st rs) k = Some r \<longleftrightarrow> r \<in> set rs \<and> getFlowId (flow_at st r) = k"
  using map_of_foldl_update [OF assms, of "[]" k r] by (simp add: new_flow_map_def)

text \<open>The store after the loop over the displayed flows.\<close>

definition refreshed_flow :: "(string, nat) gmap \<Rightarrow> store \<Rightarrow> nat \<Rightarrow> Flow" where
  "refreshed_flow live st r =
     (case map_of live (getFlowId (flow_at st r)) of
        Some new \<Rightarrow> copy_stats (flow_at st new) (flow_at st r) | None \<Rightarrow> flow_at st r)"

definition refreshed :: "(string, nat) gmap \<Rightarrow> nat list \<Rightarrow> store \<Rightarrow> store" where
  "refreshed live xs st =
     st\<lparr>st_flows := map (\<lambda>r. if r \<in> set xs then refreshed_flow live st r else flow_at st r) [0..<length (st_flows st)]\<rparr>"

definition live_map :: "(string, nat) gmap \<Rightarrow> store \<Rightarrow> bool" where
  "live_map live st \<longleftrightarrow> (\<forall>k new. map_of live k = Some new \<longrightarrow>
     new < length (st_flows st) \<and> getFlowId (flow_at st new) = k)"

lemma refreshed_frame [simp]:
  "length (st_flows (refreshed live xs st)) = length (st_flows st)"
  "st_rings (refreshed live xs st) = st_rings st"
  by (simp_all add: refreshed_def)

lemma flow_at_refreshed:
  "r < length (st_flows st) \<Longrightarrow>
   flow_at (refreshed live xs st) r = (if r \<in> set xs then refreshed_flow live st r else flow_at st r)"
  by (simp add: refreshed_def flow_at_def)

lemma refreshed_flow_identity [simp]: "same_identity (refreshed_flow live st r) (flow_at st r)"
  by (simp add: refreshed_flow_def same_identity_def copy_stats_def split: option.split)

lemma refreshed_flow_live:
  "live_map live st \<Longrightarrow> map_of live k = Some new \<Longrightarrow> refreshed_flow live st new = flow_at st new"
  by (simp add: live_map_def refreshed_flow_def)

lemma extends_refreshed: "extends st (refreshed live xs st)"
proof -
  have "same_identity (flow_at (refreshed live xs st) r) (flow_at st r)" if "r < length (st_flows st)" for r
    using that by (simp add: flow_at_refreshed) (simp add: same_identity_def)
  then show ?thesis by (simp add: extends_def flow_at_def)
qed

lemma keep_loop_result:
  assumes "live_map live st" and "\<forall>r \<in> set xs. r < length (st_flows st)"
  shows "keep_loop live xs st kept =
    (refreshed live xs st, kept @ filter (\<lambda>r. map_of live (getFlowId (flow_at st r)) \<noteq> None) xs)"
  using assms
proof (induction xs arbitrary: st kept)
  case Nil
  then show ?case by (simp add: refreshed_def flow_at_def map_nth)
next
  case (Cons x xs)
  have x: "x < length (st_flows st)" using Cons.prems by simp
  show ?case
  proof (cases "map_of live (getFlowId (flow_at st x))")
    case None
    then have "refreshed_flow live st x = flow_at st x" by (simp add: refreshed_flow_def)
    then have "refreshed live (x # xs) st = refreshed live xs st"
      by (auto simp: refreshed_def)
    with None show ?thesis using Cons by simp
  next
    case (Some new)
    let ?st = "st\<lparr>st_flows := (st_flows st)[x := copy_stats (flow_at st new) (flow_at st x)]\<rparr>"
    have at: "flow_at ?st r = (if r = x then refreshed_flow live st x else flow_at st r)" if "r < length (st_flows st)" for r
      using that x Some by (simp add: flow_at_def [of ?st] refreshed_flow_def) (simp add: flow_at_def)
    have ident: "getFlowId (flow_at ?st r) = getFlowId (flow_at st r)" if "r < length (st_flows st)" for r
      using at [OF that] getFlowId_cong [OF refreshed_flow_identity, of live st x] by simp
    have live: "new' < length (st_flows st) \<and> flow_at ?st new' = flow_at st new'" if "map_of live k = Some new'" for k new'
    proof -
      have l: "new' < length (st_flows st)" using Cons.prems(1) that by (simp add: live_map_def)
      show ?thesis using l at [OF l] refreshed_flow_live [OF Cons.prems(1) that] by auto
    qed
    have lm: "live_map live ?st"
      using Cons.prems(1) live unfolding live_map_def by simp
    have rf: "refreshed_flow live ?st r = refreshed_flow live st r" if r: "r < length (st_flows st)" for r
    proof (cases "r = x")
      case True
      have "refreshed_flow live ?st x = copy_stats (flow_at ?st new) (flow_at ?st x)"
        using Some ident [OF x] by (simp add: refreshed_flow_def)
      also have "\<dots> = copy_stats (flow_at st new) (refreshed_flow live st x)"
        using live [OF Some] at [OF x] by simp
      also have "\<dots> = refreshed_flow live st x" using Some by (simp add: refreshed_flow_def copy_stats_def)
      finally show ?thesis using True by simp
    next
      case False
      then show ?thesis
        using at [OF r] ident [OF r] live by (simp add: refreshed_flow_def split: option.split)
    qed
    have "refreshed live xs ?st = refreshed live (x # xs) st"
      using at rf by (auto simp: refreshed_def intro!: store.equality map_cong)
    moreover have "filter (\<lambda>r. map_of live (getFlowId (flow_at ?st r)) \<noteq> None) xs =
        filter (\<lambda>r. map_of live (getFlowId (flow_at st r)) \<noteq> None) xs"
      using Cons.prems(2) ident by (intro filter_cong) auto
    ultimately show ?thesis
      using Some Cons.IH [OF lm, of "kept @ [x]"] Cons.prems(2) by simp
  qed
qed

subsection \<open>The live flows\<close>

definition event_id :: "PacketEvent \<Rightarrow> string" where
  "event_id e = ip_text (evt_Saddr e) @ CHR ''|'' # ip_text (evt_Daddr e) @ CHR ''|'' # ProtocolName (evt_Protocol e)"

lemma event_id_eq_iff:
  "event_id e1 = event_id e2 \<longleftrightarrow> evt_Saddr e1 = evt_Saddr e2 \<and> evt_Daddr e1 = evt_Daddr e2 \<and>
     ProtocolName (evt_Protocol e1) = ProtocolName (evt_Protocol e2)"
  unfolding event_id_def by (simp add: append_sep_inject)

lemma identity_ok_id: "identity_ok o1 f \<Longrightarrow> getFlowId f = event_id (snd o1)"
  by (simp add: identity_ok_def getFlowId_def event_id_def ip_text_def)

lemma live_flow:
  assumes "sim m (fa, st)" and "(k, r) \<in> set (fa_flows fa)"
  shows "r < length (st_flows st) \<and> (\<exists>e. getFlowId (flow_at st r) = event_id e \<and> getFlowKey e = k)"
proof -
  have "map_of (fa_flows fa) k = Some r" using assms by (simp add: sim_def wf_map_def)
  from simD [OF assms(1) this] obtain es where e: "entry_ok (fa_packetBufferSize fa) st k r es" by blast
  then have "getFlowId (flow_at st r) = event_id (snd (hd es))"
    by (simp add: entry_ok_def flow_ok_def identity_ok_id flow_at_def)
  moreover have "getFlowKey (snd (hd es)) = k" using e by (simp add: entry_ok_def)
  ultimately show ?thesis using e by (auto simp: entry_ok_def)
qed

lemma distinct_ids_entries:
  assumes "sim m (fa, st)" and "distinct (map fst xs)" and "set xs \<subseteq> set (fa_flows fa)"
  shows "distinct (ids st (map snd xs))"
  using assms(2,3)
proof (induction xs)
  case (Cons x xs)
  obtain k r where x: "x = (k, r)" by (cases x)
  have "getFlowId (flow_at st r) \<noteq> getFlowId (flow_at st r')" if "(k', r') \<in> set xs" for k' r'
  proof -
    have "k' \<noteq> k" using that Cons.prems(1) by (force simp: x)
    moreover have "(k, r) \<in> set (fa_flows fa)" "(k', r') \<in> set (fa_flows fa)"
      using that Cons.prems(2) by (auto simp: x)
    ultimately show ?thesis
      using live_flow [OF assms(1)] by (metis event_id_eq_iff getFlowKey_eq_iff)
  qed
  then show ?case using Cons by (force simp: x)
qed simp

lemma live_flows:
  assumes sim: "sim m (fa, st)" and visit: "range_order visit"
  shows "set (GetAllFlows visit fa) = ran (map_of (fa_flows fa))"
    "\<forall>r \<in> set (GetAllFlows visit fa). r < length (st_flows st)"
    "distinct (ids st (GetAllFlows visit fa))"
proof -
  have wf: "distinct (map fst (fa_flows fa))" using sim by (simp add: sim_def wf_map_def)
  show "set (GetAllFlows visit fa) = ran (map_of (fa_flows fa))"
    using visit wf by (simp add: GetAllFlows_def ran_distinct)
  show "\<forall>r \<in> set (GetAllFlows visit fa). r < length (st_flows st)"
    using live_flow [OF sim] visit by (auto simp: GetAllFlows_def)
  have "mset (map fst (visit (fa_flows fa))) = mset (map fst (fa_flows fa))"
    using visit by (simp add: range_order_def)
  then have "distinct (map fst (visit (fa_flows fa)))" using wf by (metis mset_eq_imp_distinct_iff)
  then show "distinct (ids st (GetAllFlows visit fa))"
    using distinct_ids_entries [OF sim, of "visit (fa_flows fa)"] visit by (simp add: GetAllFlows_def)
qed

lemma sim_same_flows:
  assumes sim: "sim m (fa, st)" and rings: "st_rings st' = st_rings st"
    and len: "length (st_flows st') = length (st_flows st)"
    and same: "\<forall>r \<in> ran (map_of (fa_flows fa)). flow_at st' r = flow_at st r"
  shows "sim m (fa, st')"
proof -
  have eq: "st_flows st' ! r = st_flows st ! r" if "map_of (fa_flows fa) k = Some r" for k r
    using same that by (auto simp: flow_at_def ran_def)
  have "entry_ok b st' k r es" if "map_of (fa_flows fa) k = Some r" "entry_ok b st k r es" for b k r es
    using that(2) eq [OF that(1)] rings len by (simp add: entry_ok_def)
  moreover have "unshared fa st'"
    using sim eq by (fastforce simp: sim_def unshared_def history_ref_def)
  ultimately show ?thesis using sim by (simp add: sim_def)
qed

subsection \<open>What a refresh leaves\<close>

text \<open>What the widgets show of a flow's traffic, apart from its ports and its state.\<close>

definition same_stats :: "Flow \<Rightarrow> Flow \<Rightarrow> bool" where
  "same_stats f g \<longleftrightarrow>
     flow_PacketCount f = flow_PacketCount g \<and> flow_ByteCount f = flow_ByteCount g \<and>
     flow_ForwardPackets f = flow_ForwardPackets g \<and> flow_ForwardBytes f = flow_ForwardBytes g \<and>
     flow_ReversePackets f = flow_ReversePackets g \<and> flow_ReverseBytes f = flow_ReverseBytes g \<and>
     flow_LastPacketTime f = flow_LastPacketTime g \<and> flow_PacketHistory f = flow_PacketHistory g \<and>
     flow_DNSQueries f = flow_DNSQueries g \<and> flow_DNSQueryNames f = flow_DNSQueryNames g \<and>
     flow_DNSFailures f = flow_DNSFailures g \<and> flow_DNSLastQuery f = flow_DNSLastQuery g"

lemma same_stats_counters:
  "same_stats f g \<Longrightarrow> flow_PacketCount f = flow_PacketCount g \<and> flow_ByteCount f = flow_ByteCount g"
  by (simp add: same_stats_def)

lemma same_stats_refl [simp]: "same_stats f f"
  by (simp add: same_stats_def)

lemma same_stats_copy [simp]: "same_stats (copy_stats g f) g"
  by (simp add: same_stats_def copy_stats_def)

text \<open>A refresh in one assignment: the displayed flows that are still live, and the live ones not yet displayed.\<close>

definition displayed :: "store \<Rightarrow> nat list \<Rightarrow> nat list \<Rightarrow> nat list" where
  "displayed st old live =
     filter (\<lambda>r. getFlowId (flow_at st r) \<in> set (ids st live)) old @
     filter (\<lambda>r. getFlowId (flow_at st r) \<notin> set (ids st old)) live"

lemma ids_filter:
  "set (ids st (filter (\<lambda>r. P (getFlowId (flow_at st r))) rs)) = {k \<in> set (ids st rs). P k}"
  by (induction rs) auto

lemma updateFlows_result:
  assumes s: "slice_sort s" and not_paused: "\<not> d_paused d" and L: "L = GetAllFlows visit fa"
    and refs: "\<forall>r \<in> set (d_flows d) \<union> set L. r < length (st_flows st)"
    and dist: "distinct (ids st L)"
    and st': "st' = refreshed (new_flow_map st L) (d_flows d) st"
    and xs: "xs = displayed st (d_flows d) L" and ys: "ys = s (flow_less (d_sortBy d) st') xs"
  shows "updateFlows s visit now fa (st, d) = (st', d\<lparr>d_flows := ys, d_allFlows := L, d_shared := False,
     d_selectedFlow := (if d_selectedFlowId d \<noteq> '''' then select_loop st' (d_selectedFlowId d) 0 ys (d_selectedFlow d)
                        else d_selectedFlow d),
     d_lastUpdate := now\<rparr>)"
proof -
  let ?M = "new_flow_map st L"
  have M: "map_of ?M k = Some r \<longleftrightarrow> r \<in> set L \<and> getFlowId (flow_at st r) = k" for k r
    by (rule map_of_new_flow_map [OF dist])
  have lm: "live_map ?M st" using refs by (auto simp: live_map_def M)
  have keys: "map_of ?M k \<noteq> None \<longleftrightarrow> k \<in> set (ids st L)" for k using M by fastforce
  have ident: "getFlowId (flow_at st' r) = getFlowId (flow_at st r)" if "r < length (st_flows st)" for r
    using that getFlowId_cong [OF refreshed_flow_identity, of ?M st r] by (simp add: st' flow_at_refreshed)
  let ?kept = "filter (\<lambda>r. getFlowId (flow_at st r) \<in> set (ids st L)) (d_flows d)"
  have keep: "keep_loop ?M (d_flows d) st [] = (st', ?kept)"
    using keep_loop_result [OF lm, of "d_flows d" "[]"] refs by (simp add: keys st' del: not_None_eq)
  have "filter (\<lambda>r. getFlowId (flow_at st' r) \<notin> set (map (\<lambda>r. getFlowId (flow_at st' r)) ?kept)) L =
      filter (\<lambda>r. getFlowId (flow_at st r) \<notin> set (ids st (d_flows d))) L"
  proof (rule filter_cong [OF refl])
    fix r assume r: "r \<in> set L"
    have "map (\<lambda>r. getFlowId (flow_at st' r)) ?kept = ids st ?kept" using refs ident by (intro map_cong) auto
    moreover have "getFlowId (flow_at st' r) = getFlowId (flow_at st r)" using refs r by (intro ident) auto
    ultimately show "(getFlowId (flow_at st' r) \<notin> set (map (\<lambda>r. getFlowId (flow_at st' r)) ?kept)) =
        (getFlowId (flow_at st r) \<notin> set (ids st (d_flows d)))"
      using r ids_filter [of st "\<lambda>k. k \<in> set (ids st L)" "d_flows d"] by simp
  qed
  then have added: "?kept @ filter (\<lambda>r. getFlowId (flow_at st' r) \<notin> set (map (\<lambda>r. getFlowId (flow_at st' r)) ?kept)) L = xs"
    by (simp add: xs displayed_def)
  have empty: "ys = [] \<longleftrightarrow> xs = []"
    using slice_sort.length_sorted [OF s, of "flow_less (d_sortBy d) st'" xs] by (metis ys length_0_conv)
  have "updateFlows s visit now fa (st, d) =
      (let d1 = d\<lparr>d_flows := xs\<rparr>;
           d2 = (if length (d_flows d1) > 0 then
                   let d2 = sortFlows s st' d1 in
                   if d_selectedFlowId d2 \<noteq> ''''
                   then d2\<lparr>d_selectedFlow := select_loop st' (d_selectedFlowId d2) 0 (d_flows d2) (d_selectedFlow d2)\<rparr>
                   else d2
                 else d1)
       in (st', d2\<lparr>d_allFlows := L, d_shared := False, d_lastUpdate := now\<rparr>))"
    by (simp only: updateFlows_def finish_refresh_def split_conv Let_def keep if_not_P [OF not_paused] L [symmetric] added)
  then show ?thesis
    using empty by (cases "xs = []") (simp_all add: Let_def sortFlows_def ys)
qed

lemma displayed_ids:
  assumes "distinct (ids st old)" and "distinct (ids st live)"
  shows "distinct (ids st (displayed st old live))" and "set (ids st (displayed st old live)) = set (ids st live)"
    and "set (displayed st old live) \<subseteq> set old \<union> set live"
proof -
  let ?kept = "filter (\<lambda>r. getFlowId (flow_at st r) \<in> set (ids st live)) old"
    and ?new = "filter (\<lambda>r. getFlowId (flow_at st r) \<notin> set (ids st old)) live"
  note sets = ids_filter [of st "\<lambda>k. k \<in> set (ids st live)" old] ids_filter [of st "\<lambda>k. k \<notin> set (ids st old)" live]
  have both: "ids st (displayed st old live) = ids st ?kept @ ids st ?new" by (simp add: displayed_def)
  have "distinct (ids st ?kept)" "distinct (ids st ?new)" using assms by (simp_all only: distinct_map_filter)
  moreover have "set (ids st ?kept) \<inter> set (ids st ?new) = {}" unfolding sets by blast
  ultimately show "distinct (ids st (displayed st old live))" unfolding both distinct_append by blast
  show "set (ids st (displayed st old live)) = set (ids st live)" unfolding both set_append sets by blast
  show "set (displayed st old live) \<subseteq> set old \<union> set live" by (auto simp: displayed_def)
qed

lemma select_loop_found:
  "(if ident \<in> set (ids st rs)
    then i \<le> select_loop st ident i rs selected \<and> select_loop st ident i rs selected < i + int (length rs) \<and>
         getFlowId (flow_at st (rs ! nat (select_loop st ident i rs selected - i))) = ident
    else select_loop st ident i rs selected = selected)"
proof (induction rs arbitrary: i)
  case (Cons r rs)
  show ?case
  proof (cases "getFlowId (flow_at st r) = ident")
    case False
    let ?j = "select_loop st ident (i + 1) rs selected"
    have "nat (?j - i) = Suc (nat (?j - (i + 1)))" if "i + 1 \<le> ?j" using that by linarith
    then show ?thesis using False Cons [of "i + 1"] by (auto split: if_splits)
  qed simp
qed simp

subsection \<open>The invariant of the dashboard\<close>

abbreviation all_protos :: "string list" where
  "all_protos \<equiv> ['''', ''tcp'', ''udp'', ''icmp'', ''ipv6'', ''igmp'', ''gre'', ''esp'', ''ah'', ''eigrp'', ''ospf'', ''sctp'']"

definition valid_refs :: "store \<Rightarrow> Dashboard \<Rightarrow> bool" where
  "valid_refs st d \<longleftrightarrow>
     (\<forall>r \<in> set (d_flows d) \<union> set (d_allFlows d) \<union> set (d_frozenFlows d). r < length (st_flows st)) \<and>
     distinct (ids st (d_flows d)) \<and> distinct (ids st (d_allFlows d)) \<and>
     (d_shared d \<longrightarrow> d_flows d = d_allFlows d)"

definition positions_ok :: "Dashboard \<Rightarrow> bool" where
  "positions_ok d \<longleftrightarrow> 0 \<le> d_selectedFlow d \<and> 0 \<le> d_mainScroll d \<and> 0 \<le> d_tableScroll d \<and>
     0 \<le> d_drillScroll d \<and> 0 \<le> d_drillFlowIdx d \<and>
     (d_drillMode d \<longrightarrow> d_drillFlowIdx d < int (length (d_frozenFlows d))) \<and>
     length (d_throughputHistory d) \<le> 60"

definition choices_ok :: "Dashboard \<Rightarrow> bool" where
  "choices_ok d \<longleftrightarrow> d_availableProtos d = all_protos \<and> d_filterProto d \<in> set all_protos \<and>
     d_filterInput d \<in> set all_protos \<and>
     d_sortBy d \<in> set [''bytes'', ''packets'', ''duration'', ''latest'']"

definition dash_ok :: "store \<Rightarrow> Dashboard \<Rightarrow> bool" where
  "dash_ok st d \<longleftrightarrow> valid_refs st d \<and> positions_ok d \<and> choices_ok d"

lemma dash_ok_new: "dash_ok st (NewDashboard now)"
  by (simp add: dash_ok_def valid_refs_def positions_ok_def choices_ok_def NewDashboard_def)

lemma valid_refs_extends:
  assumes "valid_refs st d" and "extends st st'"
  shows "valid_refs st' d"
proof -
  have ids: "ids st' rs = ids st rs" if "\<forall>r \<in> set rs. r < length (st_flows st)" for rs
    using that assms(2) by (auto simp: extends_def flow_at_def intro: getFlowId_cong)
  have "ids st' (d_flows d) = ids st (d_flows d)" "ids st' (d_allFlows d) = ids st (d_allFlows d)"
    using assms(1) by (intro ids; simp add: valid_refs_def)+
  moreover have "r < length (st_flows st')" if "r < length (st_flows st)" for r
    using that assms(2) by (simp add: extends_def)
  ultimately show ?thesis
    using assms(1) unfolding valid_refs_def by metis
qed

lemma valid_refs_cong:
  "d_flows d' = d_flows d \<Longrightarrow> d_allFlows d' = d_allFlows d \<Longrightarrow> d_shared d' = d_shared d \<Longrightarrow>
   set (d_frozenFlows d') \<subseteq> set (d_frozenFlows d) \<union> set (d_flows d) \<Longrightarrow> valid_refs st d \<Longrightarrow> valid_refs st d'"
  by (auto simp: valid_refs_def)

lemma valid_refs_sort:
  assumes "slice_sort s" and "valid_refs st d"
  shows "valid_refs st (sortFlows s st' d)"
proof -
  let ?ys = "s (flow_less (d_sortBy d) st') (d_flows d)"
  have "set ?ys = set (d_flows d)" by (rule slice_sort.set_sorted [OF assms(1)])
  moreover have "distinct (ids st ?ys) = distinct (ids st (d_flows d))"
    by (rule slice_sort.distinct_map_sorted [OF assms(1)])
  ultimately show ?thesis
    using assms(2) unfolding valid_refs_def sortFlows_flows sortFlows_frame by (cases "d_shared d") auto
qed

lemma valid_refs_filter:
  assumes "valid_refs st d"
  shows "valid_refs st (applyFilters st d)"
  using assms by (auto simp: valid_refs_def applyFilters_def distinct_map_filter)

lemma applyFilters_frame:
  "positions_ok (applyFilters st d) = positions_ok d" "choices_ok (applyFilters st d) = choices_ok d"
  by (simp_all add: applyFilters_def positions_ok_def choices_ok_def)

lemma sortFlows_keeps:
  "positions_ok (sortFlows s st d) = positions_ok d" "choices_ok (sortFlows s st d) = choices_ok d"
  by (simp_all add: positions_ok_def choices_ok_def)

subsection \<open>The handlers keep it\<close>

lemma proto_up_ok:
  assumes "input \<in> set all_protos"
  shows "\<exists>p. proto_up_loop all_protos input (length all_protos) = Inr p \<and> p \<in> set all_protos"
  using assms by (auto simp: gindex_def gidx_def eval_nat_numeral)

lemma proto_down_ok:
  assumes "input \<in> set all_protos"
  shows "\<exists>p. proto_down_loop all_protos input 0 (length all_protos) = Inr p \<and> p \<in> set all_protos"
  using assms by (auto simp: gindex_def gidx_def eval_nat_numeral)

end
