(* ===== verification/ViewSafe.thy ===== *)
theory ViewSafe
  imports View DashboardProps
begin

text \<open>
  Drawing never panics: every index and slice expression of the widgets and screens is in range when the
  terminal is at least eight columns wide and three rows high, and drawing keeps the
  invariant of the dashboard. Each widget has one lemma that gives its result.
\<close>

subsection \<open>The flows table\<close>

lemma flow_rows_ok:
  "\<forall>i \<in> set is. 0 \<le> i \<and> i < int (length rs) \<Longrightarrow>
   flow_rows st rs selected is = Inr (map (\<lambda>i. flow_row st (rs ! nat i) (i = selected)) is)"
  by (induction "is") simp_all

lemma clamp_table_scroll_bounds:
  "0 \<le> clamp_table_scroll scroll n rows" "clamp_table_scroll scroll n rows \<le> max 0 (n - rows)"
  by (simp_all add: clamp_table_scroll_def Let_def)

text \<open>The rows of the window, and the numbers of flows above and below it.\<close>

definition window_start :: "Dashboard \<Rightarrow> int" where
  "window_start d = clamp_table_scroll (d_tableScroll d) (int (length (take 200 (d_flows d)))) (table_rows (d_height d))"

definition window_end :: "Dashboard \<Rightarrow> int" where
  "window_end d = min (int (length (take 200 (d_flows d)))) (window_start d + table_rows (d_height d))"

lemma window_bounds:
  "0 \<le> window_start d" "window_start d \<le> window_end d" "window_end d \<le> int (length (d_flows d))"
  "window_end d \<le> window_start d + table_rows (d_height d)"
proof -
  have rows: "3 \<le> table_rows (d_height d)" by (simp add: table_rows_def)
  note clamp = clamp_table_scroll_bounds [of "d_tableScroll d" "int (length (take 200 (d_flows d)))" "table_rows (d_height d)"]
  show "0 \<le> window_start d" using clamp(1) by (simp add: window_start_def)
  show "window_start d \<le> window_end d"
    using clamp rows unfolding window_end_def window_start_def by linarith
  show "window_end d \<le> int (length (d_flows d))" "window_end d \<le> window_start d + table_rows (d_height d)"
    by (simp_all add: window_end_def)
qed

definition window_rows :: "store \<Rightarrow> Dashboard \<Rightarrow> string list" where
  "window_rows st d = map (\<lambda>i. flow_row st (d_flows d ! nat i) (i = d_selectedFlow d)) [window_start d..window_end d - 1]"

lemma renderFlowsTable_ok:
  assumes "d_flows d \<noteq> []"
  shows "renderFlowsTable v st d = Inr (d\<lparr>d_tableScroll := window_start d\<rparr>,
    join_lines v (table_head v @ window_rows st d @
      hidden_row v (window_start d) (int (length (d_flows d)) - window_end d) @ table_foot v))"
proof -
  let ?shown = "take 200 (d_flows d)"
  have "flow_rows st ?shown (d_selectedFlow d) [window_start d..window_end d - 1] =
      Inr (map (\<lambda>i. flow_row st (?shown ! nat i) (i = d_selectedFlow d)) [window_start d..window_end d - 1])"
    using window_bounds(1) [of d] by (intro flow_rows_ok) (auto simp: window_end_def)
  moreover have "map (\<lambda>i. flow_row st (?shown ! nat i) (i = d_selectedFlow d)) [window_start d..window_end d - 1] = window_rows st d"
    unfolding window_rows_def using window_bounds(1) [of d]
    by (intro map_cong refl) (auto simp: window_end_def)
  moreover have "(if window_start d + table_rows (d_height d) > int (length ?shown) then int (length ?shown)
      else window_start d + table_rows (d_height d)) = window_end d"
    by (simp add: window_end_def min_def)
  moreover have "d_tableScroll (d\<lparr>d_tableScroll := x\<rparr>) = x" for x by simp
  ultimately show ?thesis
    using assms by (simp only: renderFlowsTable_def Let_def length_0_conv if_False window_start_def [symmetric] gbind_simps)
qed

lemma renderFlowsTable_result:
  "\<exists>scroll s. renderFlowsTable v st d = Inr (d\<lparr>d_tableScroll := scroll\<rparr>, s) \<and> (0 \<le> scroll \<or> scroll = d_tableScroll d)"
proof (cases "d_flows d = []")
  case True
  then show ?thesis by (intro exI [of _ "d_tableScroll d"]) (simp add: renderFlowsTable_def)
next
  case False
  with window_bounds(1) show ?thesis using renderFlowsTable_ok by blast
qed

subsection \<open>The other widgets\<close>

lemma f_u64_nonneg: "0 \<le> rat_of (f_u64 w)"
  unfolding f_u64_def f64.sel by (rule fl_nonneg, rule of_nat_0_le_iff)

lemma spark_index_range: "0 \<le> spark_index maxBps bps" "spark_index maxBps bps \<le> 7"
proof -
  have "0 \<le> rat_of (f_mul (f_div (f_u64 bps) (f_u64 maxBps)) (f_int 7))"
    unfolding f_mul_def f_div_def f_int_def f64.sel
    by (intro fl_nonneg mult_nonneg_nonneg divide_nonneg_nonneg f_u64_nonneg) simp
  then show "0 \<le> spark_index maxBps bps" by (simp add: spark_index_def Let_def f_trunc_def)
  show "spark_index maxBps bps \<le> 7" by (simp add: spark_index_def Let_def)
qed

definition spark_glyph :: "u64 \<Rightarrow> ThroughputSample \<Rightarrow> string" where
  "spark_glyph maxBps s = sparkChars ! nat (spark_index maxBps (ts_BytesPerSec s))"

lemma spark_loop_ok: "spark_loop maxBps ss acc = Inr (acc @ concat (map (spark_glyph maxBps) ss))"
proof (induction ss arbitrary: acc)
  case (Cons s ss)
  have "gidx sparkChars (spark_index maxBps (ts_BytesPerSec s)) = Inr (spark_glyph maxBps s)"
    using spark_index_range [of maxBps "ts_BytesPerSec s"] by (simp add: spark_glyph_def sparkChars_def)
  with Cons show ?case by simp
qed simp

lemma renderTrafficSparkline_ok: "\<exists>s. renderTrafficSparkline v d = Inr s"
  unfolding renderTrafficSparkline_def Let_def spark_loop_ok by simp

lemma cut_line_ok: "0 \<le> width + 2 \<Longrightarrow> cut_line width line = Inr (take (nat (width + 2)) line)"
  by (simp add: cut_line_def gslice_def min_int_def)

lemma cut_line_panics: "width + 2 < 0 \<Longrightarrow> cut_line width line = Inl SliceOutOfRange"
  by (simp add: cut_line_def gslice_def min_int_def)

text \<open>The line of an entry and its rank.\<close>

definition ranked_line :: "('a \<Rightarrow> string) \<Rightarrow> int \<Rightarrow> nat \<times> 'a \<Rightarrow> string" where
  "ranked_line text width = (\<lambda>(i, e). take (nat (width + 2)) (box_v @ '' '' @ dec (i + 1) @ ''. '' @ text e @ '' '' @ box_v))"

lemma ranked_lines_ok:
  assumes "0 \<le> width + 2"
  shows "i + n \<le> length entries \<Longrightarrow> ranked_lines text width entries i n =
    Inr (map (\<lambda>j. ranked_line text width (j, entries ! j)) [i..<i + n])"
proof (induction n arbitrary: i)
  case (Suc n)
  have "[i..<i + Suc n] = i # [Suc i..<Suc i + n]" by (simp add: upt_conv_Cons)
  with Suc assms show ?case by (simp add: cut_line_ok ranked_line_def)
qed simp

lemma top_count_le: "top_count xs \<le> length xs" "top_count xs = min 5 (length xs)"
  by (simp_all add: top_count_def)

lemma half_width_wide: "8 \<le> d_width d \<Longrightarrow> 0 \<le> half_width d + 2"
  by (simp add: half_width_def signed_divide_int_def sgn_if)

text \<open>The ranked rows of a widget, or its line for no entries.\<close>

definition ranked_rows :: "string \<Rightarrow> ('a \<Rightarrow> string) \<Rightarrow> int \<Rightarrow> 'a list \<Rightarrow> string list" where
  "ranked_rows none text width entries =
     (if entries = [] then [none]
      else map (\<lambda>j. ranked_line text width (j, entries ! j)) [0..<min 5 (length entries)])"

lemma ranked_rows_ok:
  assumes "0 \<le> width + 2"
  shows "(if top_count entries = 0 then Inr [none] else ranked_lines text width entries 0 (top_count entries)) =
    Inr (ranked_rows none text width entries)"
  using ranked_lines_ok [OF assms, of 0 "top_count entries" entries "text"] top_count_le [of entries]
  by (auto simp: ranked_rows_def)

lemma renderTopTalkers_ok: "8 \<le> d_width d \<Longrightarrow> \<exists>s. renderTopTalkers v st d = Inr s"
  unfolding renderTopTalkers_def Let_def by (simp only: ranked_rows_ok [OF half_width_wide] gbind_simps) blast

lemma renderPortAnalyzer_ok: "8 \<le> d_width d \<Longrightarrow> \<exists>s. renderPortAnalyzer v st d = Inr s"
  unfolding renderPortAnalyzer_def Let_def by (simp only: ranked_rows_ok [OF half_width_wide] gbind_simps) blast

lemma status_line_ok: "30 \<le> width \<Longrightarrow> \<exists>s. status_line zone width m = Inr s"
  by (auto simp: status_line_def Let_def shorten_ok gslice_def)

lemma status_lines_ok: "30 \<le> width \<Longrightarrow> \<exists>ls. status_lines zone width ms = Inr ls"
proof (induction ms)
  case (Cons m ms)
  then show ?case using status_line_ok [of width zone m] by auto
qed simp

lemma GetRecent_ok: "0 \<le> n \<Longrightarrow> \<exists>ms. GetRecent sl n = Inr ms"
  by (simp add: GetRecent_def Let_def)

lemma renderStatusLog_ok: "\<exists>s. renderStatusLog v d = Inr s"
proof -
  define width where "width = (if d_width d - 4 < 30 then 30 else d_width d - 4)"
  have "30 \<le> width" by (simp add: width_def)
  have rows: "\<exists>rows. (if length ms = 0 then Inr [x] else status_lines (v_zone v) width ms) = Inr rows" for ms x
    using status_lines_ok [OF \<open>30 \<le> width\<close>] by simp
  show ?thesis
  proof (cases "v_reader v")
    case None
    then show ?thesis by (simp add: renderStatusLog_def Let_def)
  next
    case (Some er)
    obtain ms where ms: "GetRecent (er_Status er) 4 = Inr ms" using GetRecent_ok [of 4] by auto
    obtain ls where "(if length ms = 0 then Inr [box_v @ '' (no messages) '' @ repeatStr '' '' (width - 17) @ box_v]
        else status_lines (v_zone v) width ms) = Inr ls" using rows by blast
    then show ?thesis
      unfolding renderStatusLog_def Let_def width_def [symmetric] Some option.case ms gbind_simps by simp
  qed
qed

subsection \<open>The screens\<close>

lemma domain_loop_ok: "\<exists>ls. domain_loop n ds = Inr ls"
proof (induction n ds rule: domain_loop.induct)
  case (2 n domain b rest)
  then show ?case by (cases "n \<ge> 3") (auto simp: shorten_ok)
qed simp

lemma drill_dns_ok: "\<exists>ls. drill_dns v flow = Inr ls"
  unfolding drill_dns_def Let_def
  using domain_loop_ok [of 0 "v_visit_domains v (foldl (\<lambda>m q. AList.update (dq_Domain q) True m) [] (flow_DNSQueries flow))"]
  by auto

definition packet_text :: "(time \<Rightarrow> int) \<Rightarrow> PacketRecord \<Rightarrow> string" where
  "packet_text zone pkt =
     (let cut = (\<lambda>s. if length s > 13 then take 10 s @ ''...'' else s); sep = '' '' @ box_v @ '' '' in
      clock_centis zone (rec_Timestamp pkt) @ sep @ (if rec_Direction pkt = ''reverse'' then arrow_left else arrow_right) @
      sep @ cut (IP_String (rec_SrcIP pkt)) @ sep @ cut (IP_String (rec_DstIP pkt)) @ sep @ dec (unat (rec_Length pkt)))"

lemma packet_line_ok: "packet_line zone pkt = Inr (packet_text zone pkt)"
  by (simp add: packet_line_def packet_text_def Let_def shorten_ok)

lemma packet_lines_ok:
  "n \<le> length pkts \<Longrightarrow> packet_lines zone pkts n = Inr (rev (map (packet_text zone) (take n pkts)))"
  by (induction n) (simp_all add: packet_line_ok take_Suc_conv_app_nth)

text \<open>The history column: four lines of heading and the packets, newest first.\<close>

definition history_head :: "screen \<Rightarrow> string list" where
  "history_head v = (case drill_history v [] of Inr ls \<Rightarrow> take 4 ls | Inl _ \<Rightarrow> [])"

lemma drill_history_ok:
  "drill_history v pkts = Inr (history_head v @
     (if pkts = [] then [''(no packets)''] else rev (map (packet_text (v_zone v)) pkts)))"
  by (simp add: drill_history_def history_head_def packet_lines_ok)

lemma length_history_head [simp]: "length (history_head v) = 4"
  by (simp add: drill_history_def history_head_def)

lemma cut_lines_ok: "0 \<le> rows \<Longrightarrow> cut_lines rows ls = Inr (take (nat rows) ls)"
  by (simp add: cut_lines_def gslice_def)

lemma cut_lines_panics: "rows < 0 \<Longrightarrow> cut_lines rows ls = Inl SliceOutOfRange"
  by (simp add: cut_lines_def gslice_def)

lemma gslice_from: "0 \<le> i \<Longrightarrow> i \<le> int (length xs) \<Longrightarrow> gslice xs i (int (length xs)) = Inr (drop (nat i) xs)"
  by (simp add: gslice_def)

lemma clamp_scroll_bounds:
  "0 \<le> scroll \<Longrightarrow> 0 \<le> clamp_scroll scroll n rows"
  "0 \<le> n \<Longrightarrow> 0 \<le> rows \<Longrightarrow> clamp_scroll scroll n rows \<le> n"
  "clamp_scroll scroll n rows \<le> scroll"
  by (simp_all add: clamp_scroll_def Let_def)

lemma renderDrillDown_ok:
  assumes "3 \<le> d_height d" and "0 \<le> d_drillScroll d" and "0 \<le> d_drillFlowIdx d"
  shows "\<exists>scroll s. renderDrillDown v st d = Inr (d\<lparr>d_drillScroll := scroll\<rparr>, s) \<and> 0 \<le> scroll"
proof (cases "d_drillFlowIdx d \<ge> int (length (d_frozenFlows d))")
  case True
  then show ?thesis
    using assms(2) by (intro exI [of _ "d_drillScroll d"]) (simp add: renderDrillDown_def)
next
  case False
  have rows: "0 \<le> d_height d - 3" using assms(1) by simp
  let ?r = "d_frozenFlows d ! nat (d_drillFlowIdx d)"
  let ?n = "int (length (history_head v @ (if d_cachedPackets d = [] then [''(no packets)''] else
      rev (map (packet_text (v_zone v)) (d_cachedPackets d)))))"
  let ?scroll = "clamp_scroll (d_drillScroll d) ?n (d_height d - 3)"
  obtain dns where dns: "drill_dns v (flow_at st ?r) = Inr dns" using drill_dns_ok by blast
  have s: "0 \<le> ?scroll" "?scroll \<le> ?n" using assms(2) rows by (auto intro: clamp_scroll_bounds simp del: length_append)
  have "\<exists>t. renderDrillDown v st d = Inr (d\<lparr>d_drillScroll := ?scroll\<rparr>, t)"
    unfolding renderDrillDown_def Let_def drill_history_ok
    using False assms(3) by (simp add: dns cut_lines_ok [OF rows] gslice_from [OF s] del: length_append length_map length_rev)
  with s(1) show ?thesis by blast
qed

text \<open>The dimensions at which drawing is safe.\<close>

definition big_enough :: "Dashboard \<Rightarrow> bool" where
  "big_enough d \<longleftrightarrow> d_width d = 0 \<or> 8 \<le> d_width d \<and> 3 \<le> d_height d"

text \<open>What drawing changes: scroll positions and the throughput history.\<close>

definition static :: "Dashboard \<Rightarrow> Dashboard" where
  "static d = d\<lparr>d_tableScroll := 0, d_mainScroll := 0, d_drillScroll := 0, d_throughputHistory := [], d_lastStatsTime := 0,
     d_lastTotalPackets := 0, d_lastTotalBytes := 0\<rparr>"

definition drawn :: "Dashboard \<Rightarrow> Dashboard \<Rightarrow> bool" where
  "drawn d d' \<longleftrightarrow> static d' = static d \<and> (positions_ok d \<longrightarrow> positions_ok d')"

lemma static_fields:
  "d_width (static d) = d_width d" "d_height (static d) = d_height d" "d_flows (static d) = d_flows d"
  "d_allFlows (static d) = d_allFlows d" "d_shared (static d) = d_shared d" "d_frozenFlows (static d) = d_frozenFlows d"
  "choices_ok (static d) = choices_ok d"
  by (simp_all add: static_def choices_ok_def)

lemma staticD:
  assumes "static d' = static d"
  shows "d_width d' = d_width d" "d_height d' = d_height d" "d_flows d' = d_flows d" "d_allFlows d' = d_allFlows d"
    "d_shared d' = d_shared d" "d_frozenFlows d' = d_frozenFlows d" "choices_ok d' = choices_ok d"
  using static_fields [of d] static_fields [of d'] assms by simp_all

lemma drawn_refl: "drawn d d"
  by (simp add: drawn_def)

lemma drawn_ok:
  assumes "drawn d d'" and "dash_ok st d"
  shows "dash_ok st d'"
proof -
  have "static d' = static d" using assms(1) by (simp add: drawn_def)
  from staticD [OF this] show ?thesis
    using assms by (simp only: drawn_def dash_ok_def valid_refs_def) blast
qed

lemma drawn_size:
  assumes "drawn d d'"
  shows "big_enough d' = big_enough d"
proof -
  have "static d' = static d" using assms by (simp add: drawn_def)
  from staticD(1,2) [OF this] show ?thesis by (simp only: big_enough_def)
qed

lemma static_scroll [simp]:
  "static (d\<lparr>d_tableScroll := i\<rparr>) = static d" "static (d\<lparr>d_mainScroll := i\<rparr>) = static d"
  "static (d\<lparr>d_drillScroll := i\<rparr>) = static d"
  by (simp_all add: static_def)

lemma drawn_scroll:
  "drawn d d' \<Longrightarrow> 0 \<le> i \<Longrightarrow> drawn d (d'\<lparr>d_tableScroll := i\<rparr>)"
  "drawn d d' \<Longrightarrow> 0 \<le> i \<Longrightarrow> drawn d (d'\<lparr>d_mainScroll := i\<rparr>)"
  "drawn d d' \<Longrightarrow> 0 \<le> i \<Longrightarrow> drawn d (d'\<lparr>d_drillScroll := i\<rparr>)"
  by (simp_all add: drawn_def positions_ok_def)

lemma length_push_sample: "length h \<le> 60 \<Longrightarrow> length (push_sample h s) \<le> 60"
  by (simp add: push_sample_def Let_def)

lemma drawn_updateThroughputHistory: "drawn d (updateThroughputHistory oob now reader lookup d)"
proof (cases reader)
  case None
  then show ?thesis by (simp add: updateThroughputHistory_def drawn_refl)
next
  case (Some er)
  obtain p b where k: "KernelStats er lookup = (p, b)" by fastforce
  show ?thesis
    unfolding updateThroughputHistory_def Some option.case Let_def k prod.case
    by (simp add: drawn_def static_def positions_ok_def length_push_sample)
qed

lemma main_lines_ok:
  assumes "8 \<le> d_width d"
  shows "\<exists>d' ls. main_lines v st d = Inr (d', ls) \<and> drawn d d'"
proof -
  define d1 where "d1 = updateThroughputHistory (v_oob v) (v_now v) (v_reader v) (v_lookup v) d"
  have d1: "drawn d d1" unfolding d1_def by (rule drawn_updateThroughputHistory)
  obtain spark where spark: "renderTrafficSparkline v d1 = Inr spark" using renderTrafficSparkline_ok by blast
  obtain scroll table where table: "renderFlowsTable v st d1 = Inr (d1\<lparr>d_tableScroll := scroll\<rparr>, table)"
    "0 \<le> scroll \<or> scroll = d_tableScroll d1" using renderFlowsTable_result by blast
  let ?d2 = "d1\<lparr>d_tableScroll := scroll\<rparr>"
  have d2: "drawn d ?d2" using table(2)
  proof
    assume "0 \<le> scroll"
    with d1 show ?thesis by (rule drawn_scroll)
  next
    assume "scroll = d_tableScroll d1"
    with d1 show ?thesis by simp
  qed
  then have wide: "8 \<le> d_width ?d2" using assms unfolding drawn_def by (metis staticD(1))
  obtain talkers where talkers: "renderTopTalkers v st ?d2 = Inr talkers" using renderTopTalkers_ok [OF wide] by blast
  obtain ports where ports: "renderPortAnalyzer v st ?d2 = Inr ports" using renderPortAnalyzer_ok [OF wide] by blast
  obtain status where status: "renderStatusLog v ?d2 = Inr status" using renderStatusLog_ok by blast
  from d2 show ?thesis
    unfolding main_lines_def Let_def d1_def [symmetric] spark gbind_simps table(1) split_conv talkers ports status by blast
qed

text \<open>The part of the lines that a scrolled view shows.\<close>

definition view_window :: "int \<Rightarrow> int \<Rightarrow> 'a list \<Rightarrow> 'a list" where
  "view_window scroll rows ls = take (nat rows) (drop (nat (clamp_scroll scroll (int (length ls)) rows)) ls)"

text \<open>The main view is shown.\<close>

definition in_main_view :: "Dashboard \<Rightarrow> bool" where
  "in_main_view d \<longleftrightarrow> d_width d \<noteq> 0 \<and> \<not> d_helpMode d \<and> \<not> d_filterMode d \<and>
     \<not> (d_drillMode d \<and> d_drillFlowIdx d < int (length (d_flows d)))"

lemma View_main:
  assumes "in_main_view d" and "main_lines v st d = Inr (d1, ls)" and "0 \<le> d_mainScroll d1"
  shows "View v st d = Inr (d1\<lparr>d_mainScroll := clamp_scroll (d_mainScroll d1) (int (length ls)) (max 10 (d_height d1))\<rparr>,
     join_lines v (view_window (d_mainScroll d1) (max 10 (d_height d1)) ls))"
proof -
  let ?rows = "max 10 (d_height d1)"
  have rows: "(if d_height d1 < 10 then 10 else d_height d1) = ?rows" "0 \<le> ?rows" by simp_all
  let ?s = "clamp_scroll (d_mainScroll d1) (int (length ls)) ?rows"
  have s: "0 \<le> ?s" "?s \<le> int (length ls)"
    by (rule clamp_scroll_bounds(1) [OF assms(3)], rule clamp_scroll_bounds(2)) simp_all
  have get: "d_mainScroll (d1\<lparr>d_mainScroll := ?s\<rparr>) = ?s" by simp
  have main: "d_width d \<noteq> 0" "\<not> d_helpMode d" "\<not> d_filterMode d"
    "\<not> (d_drillMode d \<and> d_drillFlowIdx d < int (length (d_flows d)))"
    using assms(1) by (simp_all add: in_main_view_def)
  show ?thesis
    unfolding View_def if_not_P [OF main(1)] if_not_P [OF main(2)] if_not_P [OF main(3)] if_not_P [OF main(4)]
      assms(2) gbind_simps split_conv Let_def rows(1) get gslice_from [OF s] cut_lines_ok [OF rows(2)] view_window_def ..
qed

lemma View_ok:
  assumes "big_enough d" and "positions_ok d"
  shows "\<exists>d' s. View v st d = Inr (d', s) \<and> drawn d d'"
proof -
  consider (none) "d_width d = 0 \<or> d_helpMode d \<or> d_filterMode d"
    | (drill) "d_width d \<noteq> 0" "\<not> d_helpMode d" "\<not> d_filterMode d" "d_drillMode d \<and> d_drillFlowIdx d < int (length (d_flows d))"
    | (main) "in_main_view d" by (auto simp: in_main_view_def)
  then show ?thesis
  proof cases
    case none
    then show ?thesis using drawn_refl by (auto simp: View_def)
  next
    case drill
    with assms have "3 \<le> d_height d" "0 \<le> d_drillScroll d" "0 \<le> d_drillFlowIdx d"
      by (simp_all add: big_enough_def positions_ok_def)
    from renderDrillDown_ok [OF this] obtain scroll s where
      r: "renderDrillDown v st d = Inr (d\<lparr>d_drillScroll := scroll\<rparr>, s)" "0 \<le> scroll" by blast
    have "drawn d (d\<lparr>d_drillScroll := scroll\<rparr>)" using drawn_refl r(2) by (rule drawn_scroll)
    with r(1) drill show ?thesis by (simp add: View_def)
  next
    case main
    then have "8 \<le> d_width d" using assms(1) by (simp add: big_enough_def in_main_view_def)
    from main_lines_ok [OF this] obtain d1 ls where l: "main_lines v st d = Inr (d1, ls)" "drawn d d1" by blast
    have "0 \<le> d_mainScroll d1" using assms(2) l(2) by (simp add: drawn_def positions_ok_def)
    moreover note drawn_scroll(2) [OF l(2)]
    ultimately show ?thesis using View_main [OF main l(1)] clamp_scroll_bounds(1) by blast
  qed
qed

end
