(* ===== verification/DashboardInv.thy ===== *)
theory DashboardInv
  imports ViewSafe
begin

text \<open>
  Every message keeps the dashboard's invariant and leaves the aggregator undisturbed: the handlers
  one by one, and then the whole system of aggregator and dashboard.
\<close>

subsection \<open>Histories and pointers\<close>

lemma history_at_ok:
  assumes "store_ok st" and "r < length (st_flows st)"
  shows "ring_inv (history_at st r)"
  using assms by (auto simp: store_ok_def history_at_def flow_at_def)

lemma GetAll_history:
  assumes "store_ok st" and "r < length (st_flows st)"
  shows "\<exists>pkts. GetAll (history_at st r) = Inr pkts"
  using GetAll_contents [OF history_at_ok [OF assms]] by blast

lemma gidx_frozen:
  "dash_ok st d \<Longrightarrow> d_drillFlowIdx d < int (length (d_frozenFlows d)) \<Longrightarrow>
   gidx (d_frozenFlows d) (d_drillFlowIdx d) = Inr (d_frozenFlows d ! nat (d_drillFlowIdx d))"
  by (simp add: dash_ok_def positions_ok_def)

lemma drill_max_scroll_nonneg [simp]: "0 \<le> drill_max_scroll st h r"
  by (simp add: drill_max_scroll_def Let_def)

lemma track_selection_ok:
  assumes "dash_ok st d"
  shows "\<exists>i. track_selection st d = Inr (d\<lparr>d_selectedFlowId := i\<rparr>)"
proof (cases "d_selectedFlow d < int (length (d_flows d))")
  case True
  then show ?thesis using assms by (auto simp: track_selection_def dash_ok_def positions_ok_def)
next
  case False
  then have "track_selection st d = Inr (d\<lparr>d_selectedFlowId := d_selectedFlowId d\<rparr>)"
    by (simp add: track_selection_def)
  then show ?thesis by blast
qed

subsection \<open>Keys and the wheel\<close>

text \<open>The invariant looks at the fields it names only.\<close>

lemma dash_okI:
  assumes "dash_ok st d" and "d_flows d' = d_flows d" and "d_allFlows d' = d_allFlows d" and "d_shared d' = d_shared d"
    and "set (d_frozenFlows d') \<subseteq> set (d_frozenFlows d) \<union> set (d_flows d)"
    and "positions_ok d'" and "choices_ok d'"
  shows "dash_ok st d'"
  using assms valid_refs_cong [OF assms(2,3,4,5)] by (simp add: dash_ok_def)

lemma filter_key_ok:
  assumes ok: "dash_ok st d" and s: "slice_sort s"
  shows "\<exists>d'. filter_key s st key d = Inr d' \<and> dash_ok st d'"
proof -
  have pos: "positions_ok d" and ch: "choices_ok d" using ok by (simp_all add: dash_ok_def)
  have input: "d_filterInput d \<in> set all_protos" "d_availableProtos d = all_protos"
    using ch by (simp_all add: choices_ok_def)
  obtain up down where loops:
    "proto_up_loop all_protos (d_filterInput d) (length all_protos) = Inr up" "up \<in> set all_protos"
    "proto_down_loop all_protos (d_filterInput d) 0 (length all_protos) = Inr down" "down \<in> set all_protos"
    using proto_up_ok [OF input(1)] proto_down_ok [OF input(1)] by blast
  have esc: "dash_ok st (d\<lparr>d_filterMode := False, d_filterInput := ''''\<rparr>)"
    by (rule dash_okI [OF ok]) (use pos ch in \<open>simp_all add: positions_ok_def choices_ok_def\<close>)
  have move: "dash_ok st (d\<lparr>d_filterInput := p\<rparr>)" if "p \<in> set all_protos" for p
    by (rule dash_okI [OF ok]) (use pos ch that in \<open>simp_all add: positions_ok_def choices_ok_def\<close>)
  let ?d = "sortFlows s st (applyFilters st (d\<lparr>d_filterProto := d_filterInput d\<rparr>))"
  have "dash_ok st (d\<lparr>d_filterProto := d_filterInput d\<rparr>)"
    by (rule dash_okI [OF ok]) (use pos ch in \<open>simp_all add: positions_ok_def choices_ok_def\<close>)
  then have d: "valid_refs st ?d" "positions_ok ?d" "choices_ok ?d"
    using valid_refs_sort [OF s valid_refs_filter] by (simp_all add: dash_ok_def sortFlows_keeps applyFilters_frame)
  then have enter: "dash_ok st (?d\<lparr>d_filterMode := False, d_filterInput := '''', d_selectedFlow := 0, d_selectedFlowId := ''''\<rparr>)"
    unfolding dash_ok_def valid_refs_def positions_ok_def choices_ok_def by simp
  show ?thesis
    using ok esc enter move loops input(2) unfolding filter_key_def by (simp del: proto_up_loop.simps proto_down_loop.simps)
qed

lemma drill_key_ok:
  assumes ok: "dash_ok st d"
  shows "\<exists>d'. drill_key st key d = Inr d' \<and> dash_ok st d'"
proof -
  have pos: "positions_ok d" and ch: "choices_ok d" using ok by (simp_all add: dash_ok_def)
  have scroll: "dash_ok st (d\<lparr>d_drillScroll := n\<rparr>)" if "0 \<le> n" for n
    by (rule dash_okI [OF ok]) (use pos ch that in \<open>simp_all add: positions_ok_def choices_ok_def\<close>)
  have leave: "dash_ok st (d\<lparr>d_drillMode := False, d_drillScroll := 0, d_frozenFlows := [], d_cachedPackets := []\<rparr>)"
    by (rule dash_okI [OF ok]) (use pos ch in \<open>simp_all add: positions_ok_def choices_ok_def\<close>)
  have "0 \<le> d_drillScroll d" using pos by (simp add: positions_ok_def)
  then show ?thesis
    using scroll leave ok gidx_frozen [OF ok] unfolding drill_key_def by (simp add: Let_def)
qed

lemma handleMouseScroll_ok:
  assumes ok: "dash_ok st d"
  shows "\<exists>d'. handleMouseScroll st m d = Inr (d', NoCmd) \<and> dash_ok st d'"
proof -
  have pos: "positions_ok d" and ch: "choices_ok d" using ok by (simp_all add: dash_ok_def)
  have drill: "dash_ok st (d\<lparr>d_drillScroll := n\<rparr>)" if "0 \<le> n" for n
    by (rule dash_okI [OF ok]) (use pos ch that in \<open>simp_all add: positions_ok_def choices_ok_def\<close>)
  have main: "dash_ok st (d\<lparr>d_mainScroll := n\<rparr>)" if "0 \<le> n" for n
    by (rule dash_okI [OF ok]) (use pos ch that in \<open>simp_all add: positions_ok_def choices_ok_def\<close>)
  have "0 \<le> d_drillScroll d" "0 \<le> d_mainScroll d" using pos by (simp_all add: positions_ok_def)
  then show ?thesis
    using drill main ok gidx_frozen [OF ok] unfolding handleMouseScroll_def by (cases m) (simp_all add: Let_def)
qed

lemma enter_drill_ok:
  assumes ok: "dash_ok st d" and store: "store_ok st"
  shows "\<exists>d'. enter_drill st d = Inr d' \<and> dash_ok st d'"
proof (cases "d_selectedFlow d < int (length (d_flows d))")
  case True
  have pos: "positions_ok d" and ch: "choices_ok d" and refs: "valid_refs st d" using ok by (simp_all add: dash_ok_def)
  have sel: "0 \<le> d_selectedFlow d" using pos by (simp add: positions_ok_def)
  let ?r = "d_flows d ! nat (d_selectedFlow d)"
  have "?r < length (st_flows st)" using refs True sel by (simp add: valid_refs_def)
  from GetAll_history [OF store this] obtain pkts where pkts: "GetAll (history_at st ?r) = Inr pkts" by blast
  let ?d = "d\<lparr>d_drillMode := True, d_drillFlowIdx := d_selectedFlow d, d_drillScroll := 0,
               d_frozenFlows := d_flows d, d_cachedPackets := pkts\<rparr>"
  have "enter_drill st d = Inr ?d" using True sel pkts by (simp add: enter_drill_def Let_def)
  moreover have "dash_ok st ?d"
    by (rule dash_okI [OF ok]) (use pos ch True sel in \<open>simp_all add: positions_ok_def choices_ok_def\<close>)
  ultimately show ?thesis by blast
qed (use ok in \<open>simp add: enter_drill_def\<close>)

lemma next_sort_ok: "next_sort s \<in> set [''bytes'', ''packets'', ''duration'', ''latest'']"
  by (simp add: next_sort_def)

lemma select_ok:
  assumes ok: "dash_ok st d" and "0 \<le> i" and "0 \<le> j"
  shows "\<exists>ident. track_selection st (d\<lparr>d_selectedFlow := i, d_tableScroll := j\<rparr>) =
      Inr (d\<lparr>d_selectedFlow := i, d_tableScroll := j, d_selectedFlowId := ident\<rparr>) \<and>
     dash_ok st (d\<lparr>d_selectedFlow := i, d_tableScroll := j, d_selectedFlowId := ident\<rparr>)"
proof -
  have pos: "positions_ok d" and ch: "choices_ok d" using ok by (simp_all add: dash_ok_def)
  have moved: "dash_ok st (d\<lparr>d_selectedFlow := i, d_tableScroll := j\<rparr>)"
    by (rule dash_okI [OF ok]) (use pos ch assms in \<open>simp_all add: positions_ok_def choices_ok_def\<close>)
  from track_selection_ok [OF this] obtain ident where
    "track_selection st (d\<lparr>d_selectedFlow := i, d_tableScroll := j\<rparr>) =
      Inr (d\<lparr>d_selectedFlow := i, d_tableScroll := j, d_selectedFlowId := ident\<rparr>)" by auto
  moreover have "dash_ok st (d\<lparr>d_selectedFlow := i, d_tableScroll := j, d_selectedFlowId := ident\<rparr>)"
    by (rule dash_okI [OF ok]) (use pos ch assms in \<open>simp_all add: positions_ok_def choices_ok_def\<close>)
  ultimately show ?thesis by blast
qed

text \<open>The keys that move the selection, with the scroll position they lead to.\<close>

definition scroll_up :: "int \<Rightarrow> int \<Rightarrow> int" where
  "scroll_up selected first = (if selected < first then selected else first)"

definition scroll_down :: "int \<Rightarrow> int \<Rightarrow> int \<Rightarrow> int" where
  "scroll_down rows selected first = (if selected \<ge> first + rows then selected - rows + 1 else first)"

lemma main_key_up:
  assumes "key \<in> set [''up'', ''k'']"
  shows "main_key s st key d =
    (if d_selectedFlow d > 0 then
       gbind (track_selection st (d\<lparr>d_selectedFlow := d_selectedFlow d - 1,
         d_tableScroll := scroll_up (d_selectedFlow d - 1) (d_tableScroll d)\<rparr>)) (\<lambda>d. Inr (d, NoCmd))
     else Inr (d, NoCmd))"
  using assms by (auto simp: main_key_def scroll_up_def Let_def)

lemma main_key_down:
  assumes "key \<in> set [''down'', ''j'']"
  shows "main_key s st key d =
    (if d_selectedFlow d < int (length (d_flows d)) - 1 then
       gbind (track_selection st (d\<lparr>d_selectedFlow := d_selectedFlow d + 1,
         d_tableScroll := scroll_down (table_rows (d_height d)) (d_selectedFlow d + 1) (d_tableScroll d)\<rparr>)) (\<lambda>d. Inr (d, NoCmd))
     else Inr (d, NoCmd))"
  using assms by (auto simp: main_key_def scroll_down_def Let_def)

lemma main_key_select_ok:
  assumes ok: "dash_ok st d" and key: "key \<in> set [''up'', ''k'', ''down'', ''j'']"
  shows "\<exists>d'. main_key s st key d = Inr (d', NoCmd) \<and> dash_ok st d'"
proof -
  have pos: "0 \<le> d_selectedFlow d" "0 \<le> d_tableScroll d" using ok by (simp_all add: dash_ok_def positions_ok_def)
  have "0 \<le> scroll_up i j" if "0 \<le> i" "0 \<le> j" for i j using that by (simp add: scroll_up_def)
  moreover have "0 \<le> scroll_down rows i j" if "0 \<le> i" "0 \<le> j" for rows i j using that by (simp add: scroll_down_def)
  ultimately show ?thesis
    using key ok pos select_ok [OF ok, of "d_selectedFlow d - 1" "scroll_up (d_selectedFlow d - 1) (d_tableScroll d)"]
      select_ok [OF ok, of "d_selectedFlow d + 1" "scroll_down (table_rows (d_height d)) (d_selectedFlow d + 1) (d_tableScroll d)"]
    by (cases "key \<in> set [''up'', ''k'']") (auto simp: main_key_up main_key_down)
qed

lemma main_key_ok:
  assumes ok: "dash_ok st d" and store: "store_ok st" and s: "slice_sort s"
  shows "\<exists>d' c. main_key s st key d = Inr (d', c) \<and> dash_ok st d'"
proof (cases "key \<in> set [''up'', ''k'', ''down'', ''j'']")
  case True
  from main_key_select_ok [OF ok this, of s] show ?thesis by blast
next
  case False
  have pos: "positions_ok d" and ch: "choices_ok d" using ok by (simp_all add: dash_ok_def)
  have changed: "dash_ok st (d\<lparr>d_paused := b\<rparr>)" "dash_ok st (d\<lparr>d_filterMode := True, d_filterInput := d_filterProto d\<rparr>)"
    "dash_ok st (d\<lparr>d_helpMode := True\<rparr>)" "0 \<le> n \<Longrightarrow> dash_ok st (d\<lparr>d_mainScroll := n\<rparr>)" for b n
    by (rule dash_okI [OF ok]; use pos ch in \<open>simp add: positions_ok_def choices_ok_def\<close>)+
  let ?d = "sortFlows s st (d\<lparr>d_sortBy := next_sort (d_sortBy d)\<rparr>)"
  have "dash_ok st (d\<lparr>d_sortBy := next_sort (d_sortBy d)\<rparr>)"
    by (rule dash_okI [OF ok]) (use pos ch next_sort_ok in \<open>simp_all add: positions_ok_def choices_ok_def\<close>)
  then have "valid_refs st ?d" "positions_ok ?d" "choices_ok ?d"
    using valid_refs_sort [OF s] by (simp_all add: dash_ok_def sortFlows_keeps)
  then have sorted: "dash_ok st (?d\<lparr>d_selectedFlow := 0, d_tableScroll := 0, d_selectedFlowId := ''''\<rparr>)"
    unfolding dash_ok_def valid_refs_def positions_ok_def choices_ok_def by simp
  obtain e where enter: "enter_drill st d = Inr e" "dash_ok st e" using enter_drill_ok [OF ok store] by blast
  have "0 \<le> d_mainScroll d" using pos by (simp add: positions_ok_def)
  then show ?thesis
    using False ok changed sorted enter unfolding main_key_def Let_def by simp
qed

lemma handleKeypress_ok:
  assumes ok: "dash_ok st d" and store: "store_ok st" and s: "slice_sort s"
  shows "\<exists>d' c. handleKeypress s st key d = Inr (d', c) \<and> dash_ok st d'"
proof -
  have pos: "positions_ok d" and ch: "choices_ok d" using ok by (simp_all add: dash_ok_def)
  have "dash_ok st (d\<lparr>d_helpMode := False\<rparr>)"
    by (rule dash_okI [OF ok]) (use pos ch in \<open>simp_all add: positions_ok_def choices_ok_def\<close>)
  then have helped: "dash_ok st (help_key key d)" using ok by (simp add: help_key_def)
  obtain f where "filter_key s st key d = Inr f" "dash_ok st f" using filter_key_ok [OF ok s] by blast
  moreover obtain g where "drill_key st key d = Inr g" "dash_ok st g" using drill_key_ok [OF ok] by blast
  ultimately show ?thesis
    using helped main_key_ok [OF ok store s] by (simp add: handleKeypress_def)
qed

subsection \<open>Refreshing\<close>

lemma store_ok_refreshed:
  assumes "store_ok st" and "live_map live st"
  shows "store_ok (refreshed live xs st)"
proof -
  have hist: "flow_PacketHistory (flow_at st r) < length (st_rings st)" if "r < length (st_flows st)" for r
    using assms(1) that by (auto simp: store_ok_def flow_at_def)
  have "flow_PacketHistory (refreshed_flow live st r) < length (st_rings st)" if "r < length (st_flows st)" for r
    using assms(2) hist that by (auto simp: refreshed_flow_def live_map_def copy_stats_def split: option.split)
  then show ?thesis
    using assms(1) hist by (auto simp: store_ok_def refreshed_def)
qed

text \<open>What a refresh that is not paused promises.\<close>

definition refresh_spec :: "FlowAggregator \<Rightarrow> nat list \<Rightarrow> store \<times> Dashboard \<Rightarrow> store \<times> Dashboard \<Rightarrow> bool" where
  "refresh_spec fa live = (\<lambda>(st, d) (st', d').
     distinct (ids st' (d_flows d')) \<and> set (ids st' (d_flows d')) = set (ids st' live) \<and>
     (\<forall>r \<in> set (d_flows d'). \<exists>l \<in> set live. getFlowId (flow_at st' r) = getFlowId (flow_at st' l) \<and>
        same_stats (flow_at st' r) (flow_at st' l)) \<and>
     sorted_wrt (\<lambda>i j. flow_key (d_sortBy d) st' j \<le> flow_key (d_sortBy d) st' i) (d_flows d') \<and>
     (\<forall>l \<in> set live. flow_at st' l = flow_at st l) \<and> d_allFlows d' = live \<and>
     (d_selectedFlowId d \<noteq> '''' \<and> d_selectedFlowId d \<in> set (ids st' live) \<longrightarrow>
        0 \<le> d_selectedFlow d' \<and> d_selectedFlow d' < int (length (d_flows d')) \<and>
        getFlowId (flow_at st' (d_flows d' ! nat (d_selectedFlow d'))) = d_selectedFlowId d))"

lemma refresh_ok:
  assumes ok: "dash_ok st d" and store: "store_ok st" and sim: "sim m (fa, st)"
    and s: "slice_sort s" and visit: "range_order visit" and run: "updateFlows s visit now fa (st, d) = (st', d')"
    and not_paused: "\<not> d_paused d"
  shows "dash_ok st' d' \<and> store_ok st' \<and> sim m (fa, st') \<and> extends st st' \<and>
    refresh_spec fa (GetAllFlows visit fa) (st, d) (st', d')"
proof -
  let ?L = "GetAllFlows visit fa"
  let ?M = "new_flow_map st ?L"
  let ?st = "refreshed ?M (d_flows d) st"
  let ?xs = "displayed st (d_flows d) ?L"
  define ys where "ys = s (flow_less (d_sortBy d) ?st) ?xs"
  define j where "j = select_loop ?st (d_selectedFlowId d) 0 ys (d_selectedFlow d)"
  note L = live_flows [OF sim visit]
  have refs: "valid_refs st d" and pos: "positions_ok d" and ch: "choices_ok d" using ok by (simp_all add: dash_ok_def)
  have valid: "\<forall>r \<in> set (d_flows d) \<union> set ?L. r < length (st_flows st)"
    using refs L(2) by (auto simp: valid_refs_def)
  have old: "distinct (ids st (d_flows d))" using refs by (simp add: valid_refs_def)
  from updateFlows_result [OF s not_paused refl valid L(3) refl refl ys_def, of now] run
  have st': "st' = ?st" and d': "d' = d\<lparr>d_flows := ys, d_allFlows := ?L, d_shared := False,
     d_selectedFlow := (if d_selectedFlowId d \<noteq> '''' then j else d_selectedFlow d), d_lastUpdate := now\<rparr>"
    by (simp_all add: j_def)
  have M: "map_of ?M k = Some r \<longleftrightarrow> r \<in> set ?L \<and> getFlowId (flow_at st r) = k" for k r
    by (rule map_of_new_flow_map [OF L(3)])
  have lm: "live_map ?M st" using L(2) by (auto simp: live_map_def M)
  have live: "flow_at st' l = flow_at st l" if "l \<in> set ?L" for l
    using that L(2) refreshed_flow_live [OF lm, of "getFlowId (flow_at st l)" l]
    by (simp add: st' flow_at_refreshed M)
  have ext: "extends st st'" unfolding st' by (rule extends_refreshed)
  have ident: "getFlowId (flow_at st' r) = getFlowId (flow_at st r)" if "r < length (st_flows st)" for r
    using ext that by (auto simp: extends_def flow_at_def intro: getFlowId_cong)
  have sets: "set ys = set ?xs" unfolding ys_def by (rule slice_sort.set_sorted [OF s])
  have perm: "distinct (map f ys) = distinct (map f ?xs)" for f :: "nat \<Rightarrow> string"
    unfolding ys_def by (rule slice_sort.distinct_map_sorted [OF s])
  have shown: "\<forall>r \<in> set ys. r < length (st_flows st)"
    using displayed_ids(3) [OF old L(3)] valid by (auto simp: sets)
  have ids_eq: "ids st' ys = ids st ys" "ids st' ?L = ids st ?L"
    using ident shown L(2) by (auto intro: map_cong)
  have ids_set: "set (ids st ys) = set (ids st ?L)"
    using displayed_ids(2) [OF old L(3)] by (simp add: sets)
  have ids_dist: "distinct (ids st ys)"
    using displayed_ids(1) [OF old L(3)] by (simp only: perm)
  have stats: "\<exists>l \<in> set ?L. getFlowId (flow_at st' r) = getFlowId (flow_at st' l) \<and> same_stats (flow_at st' r) (flow_at st' l)"
    if r: "r \<in> set ys" for r
  proof -
    have len: "r < length (st_flows st)" using shown r by blast
    have "getFlowId (flow_at st r) \<in> set (ids st ?L)" using ids_set r by auto
    then obtain l where l: "l \<in> set ?L" "getFlowId (flow_at st l) = getFlowId (flow_at st r)" by auto
    have "same_stats (flow_at st' r) (flow_at st l)"
    proof (cases "r \<in> set (d_flows d)")
      case True
      have "map_of ?M (getFlowId (flow_at st r)) = Some l" using l by (simp add: M)
      then have "flow_at st' r = copy_stats (flow_at st l) (flow_at st r)"
        using True len by (simp add: st' flow_at_refreshed refreshed_flow_def)
      then show ?thesis by simp
    next
      case False
      then have "r \<in> set ?L" using r by (auto simp: sets displayed_def)
      then have "r = l" using l L(3) by (auto simp: distinct_map inj_on_def)
      then show ?thesis using live [OF l(1)] by simp
    qed
    then show ?thesis using l live [OF l(1)] ident [OF len] by (intro bexI [OF _ l(1)]) simp
  qed
  have sorted: "sorted_wrt (\<lambda>i j. flow_key (d_sortBy d) st' j \<le> flow_key (d_sortBy d) st' i) ys"
    unfolding st' ys_def by (rule slice_sort.descending [OF s]) (rule flow_less_key)
  have sel: "if d_selectedFlowId d \<in> set (ids st' ys)
     then 0 \<le> j \<and> j < int (length ys) \<and> getFlowId (flow_at st' (ys ! nat j)) = d_selectedFlowId d
     else j = d_selectedFlow d"
    using select_loop_found [of "d_selectedFlowId d" st' ys 0 "d_selectedFlow d"]
    unfolding j_def st' [symmetric] by (simp only: diff_zero add_0)
  have same_set: "set (ids st' ys) = set (ids st' ?L)" using ids_set by (simp only: ids_eq)
  have dist': "distinct (ids st' ys)" "distinct (ids st' ?L)" using ids_dist L(3) by (simp_all only: ids_eq)
  have "r < length (st_flows st')" if "r < length (st_flows st)" for r using ext that by (simp add: extends_def)
  then have refs': "valid_refs st' d'"
    using shown L(2) refs dist' unfolding valid_refs_def d' by auto
  have "0 \<le> d_selectedFlow d" using pos by (simp add: positions_ok_def)
  then have "0 \<le> j" using sel by (metis (full_types))
  then have "positions_ok d'" using pos unfolding positions_ok_def d' by simp
  moreover have "choices_ok d'" using ch unfolding choices_ok_def d' by simp
  moreover have "store_ok st'" unfolding st' by (rule store_ok_refreshed [OF store lm])
  moreover have "sim m (fa, st')"
    by (rule sim_same_flows [OF sim]) (use live L(1) in \<open>auto simp: st'\<close>)
  moreover have "refresh_spec fa ?L (st, d) (st', d')"
  proof -
    have fields: "d_flows d' = ys" "d_allFlows d' = ?L" "d_sortBy d' = d_sortBy d" by (simp_all add: d')
    have "d_selectedFlow d' = j" if "d_selectedFlowId d \<noteq> ''''" using that by (simp add: d')
    moreover have "0 \<le> j \<and> j < int (length ys) \<and> getFlowId (flow_at st' (ys ! nat j)) = d_selectedFlowId d"
      if "d_selectedFlowId d \<in> set (ids st' ?L)" using sel that unfolding same_set by (simp only: if_True)
    ultimately show ?thesis
      using dist'(1) same_set stats sorted live unfolding refresh_spec_def split_conv fields by metis
  qed
  ultimately show ?thesis using refs' ext by (simp add: dash_ok_def)
qed

subsection \<open>Messages\<close>

definition world_ok :: "world \<Rightarrow> bool" where
  "world_ok w \<longleftrightarrow> slice_sort (w_sort_Slice w) \<and> range_order (w_visit w)"

lemma dash_ok_updateStats: "dash_ok st (updateStats now fa d) = dash_ok st d"
  by (simp add: dash_ok_def valid_refs_def positions_ok_def choices_ok_def updateStats_def)

lemma Update_ok:
  assumes ok: "dash_ok st d" and store: "store_ok st" and sim: "sim m (w_aggregator w, st)" and w: "world_ok w"
  shows "\<exists>st' d' c. Update w msg (st, d) = Inr (st', d', c) \<and> dash_ok st' d' \<and> store_ok st' \<and>
    sim m (w_aggregator w, st') \<and> extends st st'"
proof (cases msg)
  case (KeyMsg key)
  then show ?thesis
    using handleKeypress_ok [OF ok store, of "w_sort_Slice w" key] w store sim by (auto simp: Update_def world_ok_def)
next
  case (MouseMsg mm)
  then show ?thesis using handleMouseScroll_ok [OF ok, of mm] store sim by (auto simp: Update_def)
next
  case (WindowSizeMsg width height)
  have "dash_ok st (d\<lparr>d_width := width, d_height := height\<rparr>)"
    using ok by (simp add: dash_ok_def valid_refs_def positions_ok_def choices_ok_def)
  then show ?thesis using WindowSizeMsg store sim by (simp add: Update_def)
next
  case (RefreshFlowsMsg t)
  obtain st' d' where run: "updateFlows (w_sort_Slice w) (w_visit w) (w_now w) (w_aggregator w) (st, d) = (st', d')"
    by fastforce
  have "dash_ok st' d' \<and> store_ok st' \<and> sim m (w_aggregator w, st') \<and> extends st st'"
  proof (cases "d_paused d")
    case True
    then have "st' = st" "d' = d" using run by (simp_all add: updateFlows_def)
    then show ?thesis using ok store sim by simp
  next
    case False
    have "slice_sort (w_sort_Slice w)" "range_order (w_visit w)" using w by (simp_all add: world_ok_def)
    from refresh_ok [OF ok store sim this run False] show ?thesis by blast
  qed
  then show ?thesis using RefreshFlowsMsg run by (simp add: Update_def dash_ok_updateStats)
next
  case OtherMsg
  then show ?thesis using ok store sim by (simp add: Update_def)
qed

subsection \<open>Aggregator and dashboard together\<close>

text \<open>The size of the terminal changes only by a size message.\<close>

definition dims :: "Dashboard \<Rightarrow> int \<times> int" where
  "dims d = (d_width d, d_height d)"

definition keeps_dims :: "('a \<Rightarrow> Dashboard) \<Rightarrow> Dashboard \<Rightarrow> 'a go \<Rightarrow> bool" where
  "keeps_dims f d m \<longleftrightarrow> (\<forall>x. m = Inr x \<longrightarrow> dims (f x) = dims d)"

lemma keeps_dims_Inr [simp]: "keeps_dims f d (Inr x) = (dims (f x) = dims d)"
  by (simp add: keeps_dims_def)

lemma keeps_dims_if [simp]: "keeps_dims f d (if b then x else y) = ((b \<longrightarrow> keeps_dims f d x) \<and> (\<not> b \<longrightarrow> keeps_dims f d y))"
  by simp

lemma keeps_dims_gbind: "(\<And>x. keeps_dims f d (k x)) \<Longrightarrow> keeps_dims f d (gbind m k)"
  by (cases m) (simp_all add: keeps_dims_def)

lemma keeps_dims_then:
  "keeps_dims g d m \<Longrightarrow> (\<And>x. dims (g x) = dims d \<Longrightarrow> keeps_dims f d (k x)) \<Longrightarrow> keeps_dims f d (gbind m k)"
  by (cases m) (simp_all add: keeps_dims_def)

lemma dims_sortFlows [simp]: "dims (sortFlows s st d) = dims d"
  by (simp add: sortFlows_def Let_def dims_def)

lemma dims_applyFilters [simp]: "dims (applyFilters st d) = dims d"
  by (simp add: applyFilters_def dims_def)

lemma dims_update [simp]:
  "dims (d\<lparr>d_selectedFlow := i\<rparr>) = dims d" "dims (d\<lparr>d_tableScroll := i\<rparr>) = dims d" "dims (d\<lparr>d_mainScroll := i\<rparr>) = dims d"
  "dims (d\<lparr>d_drillScroll := i\<rparr>) = dims d" "dims (d\<lparr>d_drillMode := b\<rparr>) = dims d" "dims (d\<lparr>d_drillFlowIdx := i\<rparr>) = dims d"
  "dims (d\<lparr>d_frozenFlows := rs\<rparr>) = dims d" "dims (d\<lparr>d_cachedPackets := ps\<rparr>) = dims d" "dims (d\<lparr>d_helpMode := b\<rparr>) = dims d"
  "dims (d\<lparr>d_filterMode := b\<rparr>) = dims d" "dims (d\<lparr>d_filterInput := t\<rparr>) = dims d" "dims (d\<lparr>d_filterProto := t\<rparr>) = dims d"
  "dims (d\<lparr>d_selectedFlowId := t\<rparr>) = dims d" "dims (d\<lparr>d_sortBy := t\<rparr>) = dims d" "dims (d\<lparr>d_paused := b\<rparr>) = dims d"
  by (simp_all add: dims_def)

lemma dims_filter_key: "keeps_dims (\<lambda>d. d) d (filter_key s st key d)"
  unfolding filter_key_def by (simp add: keeps_dims_gbind)

lemma dims_drill_key: "keeps_dims (\<lambda>d. d) d (drill_key st key d)"
  unfolding drill_key_def Let_def by (simp add: keeps_dims_gbind)

lemma dims_track_selection: "dims d' = dims d \<Longrightarrow> keeps_dims (\<lambda>d. d) d (track_selection st d')"
  unfolding track_selection_def by (simp add: keeps_dims_gbind)

lemma dims_enter_drill: "keeps_dims (\<lambda>d. d) d (enter_drill st d)"
  unfolding enter_drill_def Let_def by (simp add: keeps_dims_gbind)

lemma dims_main_key: "keeps_dims fst d (main_key s st key d)"
  unfolding main_key_def Let_def
  by (simp add: keeps_dims_then [OF dims_track_selection] keeps_dims_then [OF dims_enter_drill])

lemma dims_handleKeypress: "keeps_dims fst d (handleKeypress s st key d)"
  unfolding handleKeypress_def
  by (simp add: help_key_def dims_main_key keeps_dims_then [OF dims_filter_key] keeps_dims_then [OF dims_drill_key])

lemma dims_handleMouseScroll: "keeps_dims fst d (handleMouseScroll st m d)"
  unfolding handleMouseScroll_def Let_def
  by (cases m) (simp_all add: keeps_dims_gbind)

lemma dims_updateFlows:
  assumes run: "updateFlows s visit now fa (st, d) = (st', d')"
  shows "dims d' = dims d"
proof (cases "d_paused d")
  case True
  then show ?thesis using run by (simp add: updateFlows_def)
next
  case False
  obtain st1 kept where keep: "keep_loop (new_flow_map st (GetAllFlows visit fa)) (d_flows d) st [] = (st1, kept)"
    by fastforce
  have "dims (d\<lparr>d_flows := rs\<rparr>) = dims d" "dims (x\<lparr>d_allFlows := rs, d_shared := b, d_lastUpdate := t\<rparr>) = dims x" for rs b t x
    by (simp_all add: dims_def)
  then have "dims (snd (updateFlows s visit now fa (st, d))) = dims d"
    unfolding updateFlows_def finish_refresh_def split_conv if_not_P [OF False] Let_def keep
    by (simp del: length_greater_0_conv)
  then show ?thesis by (simp add: run)
qed

fun size_ok :: "msg \<Rightarrow> bool" where
  "size_ok (WindowSizeMsg width height) = (8 \<le> width \<and> 3 \<le> height)"
| "size_ok _ = True"

lemma Update_big_enough:
  assumes "Update w msg (st, d) = Inr (st', d', c)" and "size_ok msg" and "big_enough d"
  shows "big_enough d'"
proof -
  have same: ?thesis if "dims d' = dims d"
    using that assms(3) by (simp add: big_enough_def dims_def)
  show ?thesis
  proof (cases msg)
    case (KeyMsg key)
    then have "handleKeypress (w_sort_Slice w) st key d = Inr (d', c)"
      using assms(1) by (auto simp: Update_def gbind_Inr_iff)
    with dims_handleKeypress [of d "w_sort_Slice w" st key] show ?thesis by (intro same) (simp add: keeps_dims_def)
  next
    case (MouseMsg mm)
    then have "handleMouseScroll st mm d = Inr (d', c)"
      using assms(1) by (auto simp: Update_def gbind_Inr_iff)
    with dims_handleMouseScroll [of d st mm] show ?thesis by (intro same) (simp add: keeps_dims_def)
  next
    case (RefreshFlowsMsg t)
    obtain st1 d1 where run: "updateFlows (w_sort_Slice w) (w_visit w) (w_now w) (w_aggregator w) (st, d) = (st1, d1)"
      by fastforce
    have "d' = updateStats (w_stats_now w) (w_aggregator w) d1"
      using assms(1) RefreshFlowsMsg run by (simp add: Update_def)
    then show ?thesis using dims_updateFlows [OF run] by (intro same) (simp add: updateStats_def dims_def)
  next
    case (WindowSizeMsg width height)
    then have "d_width d' = width" "d_height d' = height" using assms(1) by (auto simp: Update_def)
    then show ?thesis using assms(2) WindowSizeMsg by (simp add: big_enough_def)
  next
    case OtherMsg
    then show ?thesis using assms(1,3) by (simp add: Update_def)
  qed
qed

text \<open>
  An operation of the aggregator, a message to the dashboard that looks at the current aggregator, or a frame:
  bubbletea's call of \<open>View\<close>.
\<close>

datatype sys_op = Agg agg_op | Ui world msg | Frame screen

type_synonym system = "(FlowAggregator \<times> store) \<times> Dashboard"

fun sys_step :: "system \<Rightarrow> sys_op \<Rightarrow> system go" where
  "sys_step (s, d) (Agg op) = gbind (agg_step s op) (\<lambda>s'. Inr (s', d))"
| "sys_step ((fa, st), d) (Ui w msg) =
     gbind (Update (w\<lparr>w_aggregator := fa\<rparr>) msg (st, d)) (\<lambda>(st', d', c). Inr ((fa, st'), d'))"
| "sys_step ((fa, st), d) (Frame v) = gbind (View v st d) (\<lambda>(d', text). Inr ((fa, st), d'))"

fun sys_op_ok :: "sys_op \<Rightarrow> bool" where
  "sys_op_ok (Agg op) = op_ok op"
| "sys_op_ok (Ui w msg) = (world_ok w \<and> size_ok msg)"
| "sys_op_ok (Frame v) = True"

fun agg_ops :: "sys_op list \<Rightarrow> agg_op list" where
  "agg_ops [] = []"
| "agg_ops (Agg op # ops) = op # agg_ops ops"
| "agg_ops (Ui w msg # ops) = agg_ops ops"
| "agg_ops (Frame v # ops) = agg_ops ops"

lemma agg_ops_append [simp]: "agg_ops (xs @ ys) = agg_ops xs @ agg_ops ys"
  by (induction xs rule: agg_ops.induct) simp_all

definition run_system :: "time \<Rightarrow> duration \<Rightarrow> int \<Rightarrow> sys_op list \<Rightarrow> system go" where
  "run_system now timeout bsz ops =
     gfold sys_step ((NewFlowAggregator now timeout bsz, empty_store), NewDashboard now) ops"

lemma run_system_snoc:
  "run_system now timeout bsz (ops @ [op]) = gbind (run_system now timeout bsz ops) (\<lambda>s. sys_step s op)"
  by (cases "run_system now timeout bsz ops") (simp_all add: run_system_def gfold_append gbind_def split: sum.split)

definition system_ok :: "duration \<Rightarrow> groups \<Rightarrow> obs list \<Rightarrow> system \<Rightarrow> bool" where
  "system_ok timeout m es = (\<lambda>((fa, st), d). sim m (fa, st) \<and> store_ok st \<and> dash_ok st d \<and> big_enough d \<and>
     stats_ok es (fa_globalStats fa) \<and> fa_flowTimeout fa = timeout)"

lemma sys_step_ok:
  assumes ok: "system_ok timeout m es s" and op: "sys_op_ok op"
  shows "\<exists>s'. sys_step s op = Inr s' \<and>
    (case op of Agg aop \<Rightarrow> system_ok timeout (group_step timeout m aop) (es @ obs_of aop) s'
     | Ui w msg \<Rightarrow> system_ok timeout m es s' | Frame v \<Rightarrow> system_ok timeout m es s')"
proof -
  obtain fa st d where s: "s = ((fa, st), d)" by (cases s) auto
  from ok have inv: "sim m (fa, st)" "store_ok st" "dash_ok st d" "stats_ok es (fa_globalStats fa)" "fa_flowTimeout fa = timeout"
    and big: "big_enough d"
    by (simp_all add: s system_ok_def)
  show ?thesis
  proof (cases op)
    case (Agg aop)
    then have aok: "op_ok aop" using op by simp
    from agg_step_sim [OF inv(1) aok inv(4)] obtain fa' st' where
      step: "agg_step (fa, st) aop = Inr (fa', st')" "sim (group_step timeout m aop) (fa', st')"
        "stats_ok (es @ obs_of aop) (fa_globalStats fa')" "fa_flowTimeout fa' = timeout"
      using inv(5) by auto
    from agg_step_store [OF inv(2,1) aok step(1)] have "store_ok st'" "extends st st'" by blast+
    then have "dash_ok st' d" using inv(3) valid_refs_extends by (auto simp: dash_ok_def)
    with step \<open>store_ok st'\<close> big show ?thesis by (simp add: Agg s system_ok_def)
  next
    case (Ui w msg)
    have "sim m (w_aggregator (w\<lparr>w_aggregator := fa\<rparr>), st)" "world_ok (w\<lparr>w_aggregator := fa\<rparr>)"
      using inv(1) op Ui by (simp_all add: world_ok_def)
    from Update_ok [OF inv(3,2) this, of msg] obtain st' d' c where
      run: "Update (w\<lparr>w_aggregator := fa\<rparr>) msg (st, d) = Inr (st', d', c)" "dash_ok st' d'" "store_ok st'"
      "sim m (fa, st')" by auto
    moreover have "big_enough d'" using Update_big_enough [OF run(1) _ big] op Ui by simp
    ultimately show ?thesis using inv by (simp add: Ui s system_ok_def)
  next
    case (Frame v)
    have "positions_ok d" using inv(3) by (simp add: dash_ok_def)
    from View_ok [OF big this, of v st] obtain d' t where "View v st d = Inr (d', t)" "drawn d d'" by blast
    moreover from \<open>drawn d d'\<close> have "dash_ok st d'" "big_enough d'"
      using drawn_ok [OF _ inv(3)] drawn_size big by blast+
    ultimately show ?thesis using inv by (simp add: Frame s system_ok_def)
  qed
qed

lemma conversations_snoc: "conversations timeout (ops @ [op]) = group_step timeout (conversations timeout ops) op"
  by (simp add: conversations_def)

lemma run_system_ok:
  assumes "list_all sys_op_ok ops"
  shows "\<exists>s. run_system now timeout bsz ops = Inr s \<and>
    system_ok timeout (conversations timeout (agg_ops ops)) (events_of (agg_ops ops)) s"
  using assms
proof (induction ops rule: rev_induct)
  case Nil
  show ?case
    using sim_new [of now timeout bsz] dash_ok_new store_ok_empty
    by (simp add: big_enough_def NewDashboard_def run_system_def system_ok_def conversations_def events_of_def stats_ok_def empty_store_def)
       (simp add: NewFlowAggregator_def Let_def)
next
  case (snoc op ops)
  then obtain s where s: "run_system now timeout bsz ops = Inr s"
    "system_ok timeout (conversations timeout (agg_ops ops)) (events_of (agg_ops ops)) s" by auto
  have "sys_op_ok op" using snoc.prems by simp
  from sys_step_ok [OF s(2) this] obtain s' where "sys_step s op = Inr s'"
    "case op of Agg aop \<Rightarrow> system_ok timeout (group_step timeout (conversations timeout (agg_ops ops)) aop) (events_of (agg_ops ops) @ obs_of aop) s'
     | Ui w msg \<Rightarrow> system_ok timeout (conversations timeout (agg_ops ops)) (events_of (agg_ops ops)) s'
     | Frame v \<Rightarrow> system_ok timeout (conversations timeout (agg_ops ops)) (events_of (agg_ops ops)) s'" by blast
  then show ?case
    using s(1) by (cases op) (simp_all add: run_system_snoc conversations_snoc events_of_def)
qed

end
