(* ===== verification/DashboardResults.thy ===== *)
theory DashboardResults
  imports DashboardInv
begin

text \<open>
  What the dashboard promises, for every interleaving of packets, sweeps, keys, wheel turns, frames and refreshes, each a whole operation.
  (\<open>RefreshSteps\<close> takes the refreshes apart.)
\<close>

subsection \<open>Concrete runs for the witnesses\<close>

definition demo_world :: "FlowAggregator \<Rightarrow> world" where
  "demo_world fa = \<lparr>w_sort_Slice = insertion_sort, w_visit = rev, w_now = 5, w_stats_now = 6, w_aggregator = fa\<rparr>"

text \<open>A screen whose styles do nothing and which joins lines with line breaks.\<close>

definition plain_screen :: screen where
  "plain_screen =
     \<lparr>v_lip = \<lparr>lg_Render = (\<lambda>style s. s), lg_JoinVertical = (\<lambda>ls. concat (map (\<lambda>l. l @ [newline]) ls)), lg_JoinHorizontal = concat\<rparr>,
      v_now = 0, v_drill_now = 0, v_zone = (\<lambda>t. 0), v_reader = None, v_lookup = None, v_oob = (\<lambda>x. 0),
      v_visit_protos = rev, v_visit_ports = rev, v_visit_domains = rev,
      v_sort_flows = insertion_sort, v_sort_protos = insertion_sort, v_sort_ports = insertion_sort\<rparr>"

lemma demo_world_ok [simp]: "world_ok (demo_world fa)"
  by (simp add: world_ok_def demo_world_def go_sort_slice_sort range_order_rev)

definition demo_ops :: "sys_op list" where
  "demo_ops = map Agg traffic"

lemma agg_ops_map [simp]: "agg_ops (map Agg ops) = ops"
  by (induction ops) simp_all

lemma sys_ops_ok_map [simp]: "list_all sys_op_ok (map Agg ops) = list_all op_ok ops"
  by (induction ops) simp_all

lemma demo_ops_ok [simp]: "list_all sys_op_ok demo_ops"
  by (simp add: demo_ops_def)

lemma agg_ops_demo [simp]: "agg_ops demo_ops = traffic"
  by (simp add: demo_ops_def)

lemma run_only_aggregator:
  "gfold sys_step (s, d) (map Agg ops) = gbind (gfold agg_step s ops) (\<lambda>s'. Inr (s', d))"
  by (induction ops arbitrary: s) (auto simp: gbind_assoc)

lemma demo_run: "\<exists>fa st. run_system 0 10 5000 demo_ops = Inr ((fa, st), NewDashboard 0)"
  using run_from_new_ok [OF traffic_ok, of 0 10 5000]
  by (auto simp: run_system_def demo_ops_def run_only_aggregator run_from_new_def)

text \<open>Two live flows with the same identity are the same flow.\<close>

lemma live_ids_inject:
  assumes "sim m (fa, st)" and "l \<in> ran (map_of (fa_flows fa))" and "l' \<in> ran (map_of (fa_flows fa))"
    and "getFlowId (flow_at st l) = getFlowId (flow_at st l')"
  shows "l = l'"
proof -
  note L = live_flows [OF assms(1) range_order_id]
  have "inj_on (\<lambda>r. getFlowId (flow_at st r)) (set (GetAllFlows (\<lambda>m. m) fa))"
    using L(3) by (simp only: distinct_map)
  then show ?thesis using assms(2-4) unfolding L(1) inj_on_def by blast
qed

lemma run_system_state:
  assumes "list_all sys_op_ok ops" and "run_system now timeout bsz ops = Inr ((fa, st), d)"
  shows "sim (conversations timeout (agg_ops ops)) (fa, st) \<and> store_ok st \<and> dash_ok st d \<and>
    stats_ok (events_of (agg_ops ops)) (fa_globalStats fa)"
  using run_system_ok [OF assms(1), of now timeout bsz] assms(2) by (auto simp: system_ok_def)

text \<open>The pointers to the live flows.\<close>

abbreviation live_refs :: "FlowAggregator \<Rightarrow> nat set" where
  "live_refs fa \<equiv> ran (map_of (fa_flows fa))"

lemma run_system_live:
  assumes "list_all sys_op_ok ops" and "run_system now timeout bsz ops = Inr ((fa, st), d)"
    and "conversations timeout (agg_ops ops) k = Some es"
  shows "\<exists>r. map_of (fa_flows fa) k = Some r \<and> r \<in> live_refs fa \<and> flow_ok (hd es) (flow_at st r) es"
proof -
  have sim: "sim (conversations timeout (agg_ops ops)) (fa, st)" using run_system_state [OF assms(1,2)] by blast
  then have "dom (map_of (fa_flows fa)) = dom (conversations timeout (agg_ops ops))" by (simp add: sim_def)
  then have "k \<in> dom (map_of (fa_flows fa))" using assms(3) by blast
  then obtain r where r: "map_of (fa_flows fa) k = Some r" by blast
  from simD [OF sim r] assms(3) have "flow_ok (hd es) (flow_at st r) es" by (auto simp: entry_ok_def flow_at_def)
  with r show ?thesis by (auto intro: ranI)
qed

subsection \<open>Refreshing\<close>

lemma refresh_lists_live_flows:
  assumes "list_all sys_op_ok ops" and "run_system now timeout bsz ops = Inr ((fa, st), d)"
    and "world_ok w" and "\<not> d_paused d"
  shows "\<exists>st' d'. sys_step ((fa, st), d) (Ui w (RefreshFlowsMsg t)) = Inr ((fa, st'), d') \<and>
     distinct (ids st' (d_flows d')) \<and>
     set (ids st' (d_flows d')) = (\<lambda>l. getFlowId (flow_at st l)) ` live_refs fa \<and>
     (\<forall>r \<in> set (d_flows d'). \<exists>l \<in> live_refs fa. getFlowId (flow_at st' r) = getFlowId (flow_at st l) \<and>
        same_stats (flow_at st' r) (flow_at st l)) \<and>
     sorted_wrt (\<lambda>i j. flow_key (d_sortBy d) st' j \<le> flow_key (d_sortBy d) st' i) (d_flows d') \<and>
     (\<forall>l \<in> live_refs fa. flow_at st' l = flow_at st l) \<and>
     d_globalStats d' = GetGlobalStats (w_stats_now w) fa"
proof -
  note state = run_system_state [OF assms(1,2)]
  have s: "slice_sort (w_sort_Slice w)" and visit: "range_order (w_visit w)" using assms(3) by (simp_all add: world_ok_def)
  obtain st' d' where run: "updateFlows (w_sort_Slice w) (w_visit w) (w_now w) fa (st, d) = (st', d')" by fastforce
  from refresh_ok [OF _ _ _ s visit run assms(4)] state
  have spec: "refresh_spec fa (GetAllFlows (w_visit w) fa) (st, d) (st', d')" by blast
  have L: "set (GetAllFlows (w_visit w) fa) = live_refs fa" using live_flows(1) [OF _ visit] state by blast
  have step: "sys_step ((fa, st), d) (Ui w (RefreshFlowsMsg t)) =
      Inr ((fa, st'), updateStats (w_stats_now w) fa d')"
    using run by (simp add: Update_def)
  have same: "flow_at st' l = flow_at st l" if "l \<in> live_refs fa" for l
    using spec that unfolding L [symmetric] by (simp add: refresh_spec_def)
  have "\<forall>r \<in> set (d_flows d'). \<exists>l \<in> live_refs fa. getFlowId (flow_at st' r) = getFlowId (flow_at st' l) \<and>
        same_stats (flow_at st' r) (flow_at st' l)"
    using spec unfolding refresh_spec_def split_conv L by blast
  then have stats: "\<forall>r \<in> set (d_flows d'). \<exists>l \<in> live_refs fa. getFlowId (flow_at st' r) = getFlowId (flow_at st l) \<and>
        same_stats (flow_at st' r) (flow_at st l)"
    using same by metis
  have ids_live: "(\<lambda>l. getFlowId (flow_at st' l)) ` live_refs fa = (\<lambda>l. getFlowId (flow_at st l)) ` live_refs fa"
    using spec L by (simp add: refresh_spec_def)
  show ?thesis
    by (rule exI [of _ st'], rule exI [of _ "updateStats (w_stats_now w) fa d'"])
       (use step spec stats L ids_live in \<open>simp add: refresh_spec_def updateStats_def\<close>)
qed

text \<open>
  C6: A refresh shows exactly the live flows. Unless the dashboard is paused, after a refresh that no packet or sweep interrupts it lists one
  flow for each live conversation and no other, identified by addresses and protocol, whatever the protocol filter says; each
  carries the packet and byte counters of both directions, the last packet time, the DNS fields and the history of the live flow, the list is in
  descending order of the chosen criterion, the live flows themselves are unchanged,
  and the totals are the aggregator's.
\<close>

theorem refresh_shows_live_flows:
  assumes "list_all sys_op_ok ops" and "run_system now timeout bsz ops = Inr ((fa, st), d)"
    and "world_ok w" and "\<not> d_paused d"
  shows "\<exists>st' d'. sys_step ((fa, st), d) (Ui w (RefreshFlowsMsg t)) = Inr ((fa, st'), d') \<and>
     distinct (ids st' (d_flows d')) \<and>
     set (ids st' (d_flows d')) = (\<lambda>l. getFlowId (flow_at st l)) ` live_refs fa \<and>
     (\<forall>r \<in> set (d_flows d'). \<exists>l \<in> live_refs fa. getFlowId (flow_at st' r) = getFlowId (flow_at st l) \<and>
        same_stats (flow_at st' r) (flow_at st l)) \<and>
     sorted_wrt (\<lambda>i j. flow_key (d_sortBy d) st' j \<le> flow_key (d_sortBy d) st' i) (d_flows d') \<and>
     (\<forall>l \<in> live_refs fa. flow_at st' l = flow_at st l) \<and>
     d_globalStats d' = GetGlobalStats (w_stats_now w) fa"
  by (rule refresh_lists_live_flows [OF assms])

theorem refresh_shows_live_flows_witness:
  "\<exists>fa st d st' d' r. run_system 0 10 5000 demo_ops = Inr ((fa, st), d) \<and>
     sys_step ((fa, st), d) (Ui (demo_world fa) (RefreshFlowsMsg 7)) = Inr ((fa, st'), d') \<and>
     r \<in> set (d_flows d') \<and> flow_PacketCount (flow_at st' r) = 3"
proof -
  obtain fa st where run: "run_system 0 10 5000 demo_ops = Inr ((fa, st), NewDashboard 0)"
    using demo_run by blast
  have "\<not> d_paused (NewDashboard 0)" by (simp add: NewDashboard_def)
  from refresh_shows_live_flows [OF demo_ops_ok run demo_world_ok [of fa] this, of 7] obtain st' d' where
    step: "sys_step ((fa, st), NewDashboard 0) (Ui (demo_world fa) (RefreshFlowsMsg 7)) = Inr ((fa, st'), d')" and
    shown: "set (ids st' (d_flows d')) = (\<lambda>l. getFlowId (flow_at st l)) ` live_refs fa" and
    stats: "\<forall>r \<in> set (d_flows d'). \<exists>l \<in> live_refs fa. getFlowId (flow_at st' r) = getFlowId (flow_at st l) \<and>
        same_stats (flow_at st' r) (flow_at st l)" by blast
  obtain l where l: "l \<in> live_refs fa" "flow_ok (hd web_obs) (flow_at st l) web_obs"
    using run_system_live [OF demo_ops_ok run, of web_key web_obs] by (auto simp: traffic_conversation)
  from shown l(1) obtain r where r: "r \<in> set (d_flows d')" "getFlowId (flow_at st' r) = getFlowId (flow_at st l)"
    by (metis (no_types, lifting) imageE imageI set_map)
  from stats r(1) obtain l' where l': "l' \<in> live_refs fa" "getFlowId (flow_at st' r) = getFlowId (flow_at st l')"
    "same_stats (flow_at st' r) (flow_at st l')" by blast
  have "l' = l" using live_ids_inject run_system_state [OF demo_ops_ok run] l l' r(2) by metis
  then have "flow_PacketCount (flow_at st' r) = 3"
    using same_stats_counters [OF l'(3)] l(2) by (simp add: flow_ok_def counters_ok_def web_obs_def)
  with run step r(1) show ?thesis by blast
qed

subsection \<open>The protocol filter\<close>

lemma run_system_key:
  assumes "run_system now timeout bsz ops = Inr ((fa, st), d)"
    and "handleKeypress (w_sort_Slice w) st key d = Inr (d', c)"
  shows "run_system now timeout bsz (ops @ [Ui w (KeyMsg key)]) = Inr ((fa, st), d')"
  using assms by (simp add: run_system_snoc Update_def)

lemma run_system_refresh:
  assumes "run_system now timeout bsz ops = Inr s"
  shows "run_system now timeout bsz (ops @ [Ui w (RefreshFlowsMsg t)]) = sys_step s (Ui w (RefreshFlowsMsg t))"
  using assms by (simp only: run_system_snoc gbind_simps)

text \<open>
  C10: A protocol filter lasts until the next refresh. Pressing enter in the filter dialog lists exactly the flows of the
  chosen protocol, in the chosen order, selects the first and closes the dialog; but the next refresh,
  half a second later, lists every live flow again, while the filter is still set.
\<close>

theorem filter_lasts_until_refresh:
  assumes "list_all sys_op_ok ops" and "run_system now timeout bsz ops = Inr ((fa, st), d)" and "world_ok w"
    and "\<not> d_helpMode d" and "d_filterMode d" and "d_filterInput d \<noteq> ''''" and "\<not> d_paused d"
  shows "\<exists>d1 st' d2. sys_step ((fa, st), d) (Ui w (KeyMsg ''enter'')) = Inr ((fa, st), d1) \<and>
     set (d_flows d1) = {r \<in> set (d_allFlows d). flow_Protocol (flow_at st r) = d_filterInput d} \<and>
     sorted_wrt (\<lambda>i j. flow_key (d_sortBy d) st j \<le> flow_key (d_sortBy d) st i) (d_flows d1) \<and>
     d_filterProto d1 = d_filterInput d \<and> \<not> d_filterMode d1 \<and> d_selectedFlow d1 = 0 \<and>
     sys_step ((fa, st), d1) (Ui w (RefreshFlowsMsg t)) = Inr ((fa, st'), d2) \<and>
     d_filterProto d2 = d_filterInput d \<and>
     set (ids st' (d_flows d2)) = (\<lambda>l. getFlowId (flow_at st l)) ` live_refs fa"
proof -
  have s: "slice_sort (w_sort_Slice w)" using assms(3) by (simp add: world_ok_def)
  let ?f = "applyFilters st (d\<lparr>d_filterProto := d_filterInput d\<rparr>)"
  let ?d1 = "(sortFlows (w_sort_Slice w) st ?f)\<lparr>d_filterMode := False, d_filterInput := '''', d_selectedFlow := 0, d_selectedFlowId := ''''\<rparr>"
  have key: "handleKeypress (w_sort_Slice w) st ''enter'' d = Inr (?d1, NoCmd)"
    using assms(4,5) by (simp add: handleKeypress_def filter_key_def)
  have "run_system now timeout bsz (ops @ [Ui w (KeyMsg ''enter'')]) = Inr ((fa, st), ?d1)"
    by (rule run_system_key [OF assms(2) key])
  moreover have "list_all sys_op_ok (ops @ [Ui w (KeyMsg ''enter'')])" using assms(1,3) by simp
  moreover have "\<not> d_paused ?d1" using assms(7) by (simp add: applyFilters_def)
  ultimately obtain st' d2 where refresh: "sys_step ((fa, st), ?d1) (Ui w (RefreshFlowsMsg t)) = Inr ((fa, st'), d2)"
    "set (ids st' (d_flows d2)) = (\<lambda>l. getFlowId (flow_at st l)) ` live_refs fa"
    using refresh_lists_live_flows [OF _ _ assms(3), of _ now timeout bsz fa st ?d1 t] by blast
  have "d_filterProto d2 = d_filterProto ?d1"
    using refresh(1) by (auto simp: Update_def updateFlows_def finish_refresh_def updateStats_def Let_def split: prod.splits if_splits)
  moreover have "d_flows ?d1 = w_sort_Slice w (flow_less (d_sortBy d) st) (d_flows ?f)" "d_sortBy ?f = d_sortBy d"
    "d_flows ?f = filter (\<lambda>r. flow_Protocol (flow_at st r) = d_filterInput d) (d_allFlows d)"
    "d_filterProto ?f = d_filterInput d"
    using assms(6) by (simp_all add: applyFilters_def sortFlows_flows)
  moreover have "sorted_wrt (\<lambda>i j. flow_key (d_sortBy d) st j \<le> flow_key (d_sortBy d) st i) (d_flows ?d1)"
    unfolding calculation(2) by (rule slice_sort.descending [OF s]) (rule flow_less_key)
  ultimately show ?thesis
    using refresh key
    by (intro exI [of _ ?d1] exI [of _ st'] exI [of _ d2]) (simp add: Update_def slice_sort.set_sorted [OF s])
qed

lemma demo_keys:
  "handleKeypress s st ''f'' (NewDashboard 0) =
     Inr ((NewDashboard 0)\<lparr>d_filterMode := True, d_filterInput := ''''\<rparr>, NoCmd)"
  "handleKeypress s st ''down'' ((NewDashboard 0)\<lparr>d_filterMode := True, d_filterInput := ''''\<rparr>) =
     Inr ((NewDashboard 0)\<lparr>d_filterMode := True, d_filterInput := ''tcp''\<rparr>, NoCmd)"
  "handleKeypress s st ''down'' ((NewDashboard 0)\<lparr>d_filterMode := True, d_filterInput := ''tcp''\<rparr>) =
     Inr ((NewDashboard 0)\<lparr>d_filterMode := True, d_filterInput := ''udp''\<rparr>, NoCmd)"
  subgoal by (simp add: handleKeypress_def main_key_def NewDashboard_def)
  subgoal by (simp add: handleKeypress_def filter_key_def NewDashboard_def gindex_def eval_nat_numeral)
  subgoal by (simp add: handleKeypress_def filter_key_def NewDashboard_def gindex_def)
  done

theorem filter_lasts_until_refresh_witness:
  "\<exists>fa st d1 st' d2 r. sys_step ((fa, st), (NewDashboard 0)\<lparr>d_filterMode := True, d_filterInput := ''udp''\<rparr>)
       (Ui (demo_world fa) (KeyMsg ''enter'')) = Inr ((fa, st), d1) \<and> d_flows d1 = [] \<and>
     sys_step ((fa, st), d1) (Ui (demo_world fa) (RefreshFlowsMsg 7)) = Inr ((fa, st'), d2) \<and> d_filterProto d2 = ''udp'' \<and>
     r \<in> live_refs fa \<and> flow_Protocol (flow_at st r) = ''tcp'' \<and> getFlowId (flow_at st r) \<in> set (ids st' (d_flows d2))"
proof -
  obtain fa st where run: "run_system 0 10 5000 demo_ops = Inr ((fa, st), NewDashboard 0)"
    using demo_run by blast
  let ?w = "demo_world fa" and ?d = "(NewDashboard 0)\<lparr>d_filterMode := True, d_filterInput := ''udp''\<rparr>"
  let ?ops = "((demo_ops @ [Ui ?w (KeyMsg ''f'')]) @ [Ui ?w (KeyMsg ''down'')]) @ [Ui ?w (KeyMsg ''down'')]"
  let ?open = "(NewDashboard 0)\<lparr>d_filterMode := True, d_filterInput := ''''\<rparr>"
    and ?tcp = "(NewDashboard 0)\<lparr>d_filterMode := True, d_filterInput := ''tcp''\<rparr>"
  have keys: "handleKeypress (w_sort_Slice ?w) st ''f'' (NewDashboard 0) = Inr (?open, NoCmd)"
    "handleKeypress (w_sort_Slice ?w) st ''down'' ?open = Inr (?tcp, NoCmd)"
    "handleKeypress (w_sort_Slice ?w) st ''down'' ?tcp = Inr (?d, NoCmd)"
    by (rule demo_keys)+
  from run_system_key [OF run_system_key [OF run_system_key [OF run keys(1)] keys(2)] keys(3)]
  have "run_system 0 10 5000 ?ops = Inr ((fa, st), ?d)" .
  moreover have "list_all sys_op_ok ?ops" by simp
  moreover have "\<not> d_helpMode ?d" "d_filterMode ?d" "d_filterInput ?d \<noteq> ''''" "\<not> d_paused ?d"
    by (simp_all add: NewDashboard_def)
  ultimately obtain d1 st' d2 where
    enter: "sys_step ((fa, st), ?d) (Ui ?w (KeyMsg ''enter'')) = Inr ((fa, st), d1)" and
    flows: "set (d_flows d1) = {r \<in> set (d_allFlows ?d). flow_Protocol (flow_at st r) = d_filterInput ?d}" and
    refresh: "sys_step ((fa, st), d1) (Ui ?w (RefreshFlowsMsg 7)) = Inr ((fa, st'), d2)"
      "d_filterProto d2 = d_filterInput ?d"
      "set (ids st' (d_flows d2)) = (\<lambda>l. getFlowId (flow_at st l)) ` live_refs fa"
    using filter_lasts_until_refresh [of ?ops 0 10 5000 fa st ?d ?w 7] by (simp only: demo_world_ok) blast
  obtain r where r: "r \<in> live_refs fa" "flow_ok (hd web_obs) (flow_at st r) web_obs"
    using run_system_live [OF demo_ops_ok run, of web_key web_obs] by (auto simp: traffic_conversation)
  then have "flow_Protocol (flow_at st r) = ''tcp''"
    by (simp add: flow_ok_def identity_ok_def web_obs_def packet_def)
  moreover have "d_flows d1 = []" using flows by (simp add: NewDashboard_def)
  ultimately show ?thesis
    using enter refresh r(1)
    by (intro exI [of _ fa] exI [of _ st] exI [of _ d1] exI [of _ st'] exI [of _ d2] exI [of _ r]) simp
qed

lemma proto_down_loop_found:
  assumes "distinct protos" and "i < length protos" and "i0 \<le> i"
  shows "proto_down_loop protos (protos ! i) i0 (length protos - i0) = Inr (protos ! ((i + 1) mod length protos))"
  using assms(3,1,2)
proof (induction i0 rule: inc_induct)
  case base
  then have "length protos - i = Suc (length protos - Suc i)" by simp
  moreover have "(i + 1) mod length protos = (if i + 1 < length protos then i + 1 else 0)"
    using base by (simp add: le_Suc_eq not_less)
  ultimately show ?case using base by (auto simp: gindex_def)
next
  case (step n)
  then have "length protos - n = Suc (length protos - Suc n)" by simp
  moreover have "protos ! n \<noteq> protos ! i" using step by (simp add: nth_eq_iff_index_eq)
  ultimately show ?case using step by simp
qed

lemma proto_up_loop_found:
  assumes "distinct protos" and "i < n" and "n \<le> length protos"
  shows "proto_up_loop protos (protos ! i) n = Inr (protos ! ((i + length protos - 1) mod length protos))"
  using assms
proof (induction n)
  case (Suc n)
  show ?case
  proof (cases "i = n")
    case True
    then have "(n + length protos - 1) mod length protos = (if n > 0 then n - 1 else length protos - 1)"
      using Suc.prems(3) by (cases n) (simp_all add: mod_if)
    moreover have "gidx protos (int (length protos) - 1) = Inr (protos ! (length protos - 1))"
      using Suc.prems by (cases protos) (simp_all add: gidx_def gindex_def)
    ultimately show ?thesis using True Suc.prems by simp
  next
    case False
    then have "protos ! n \<noteq> protos ! i" using Suc.prems by (simp add: nth_eq_iff_index_eq)
    then show ?thesis using False Suc by simp
  qed
qed simp

text \<open>
  C12: The filter dialog cycles through the protocols. The two search loops, run on any list of distinct protocols, are the
  cyclic successor and predecessor: down moves from each entry to the next and from the last to the first, up
  does the reverse, so the two undo each other, and no entry can be missed or index left.
\<close>

theorem filter_choice_cycles:
  assumes "distinct protos" and "i < length protos"
  shows "proto_down_loop protos (protos ! i) 0 (length protos) = Inr (protos ! ((i + 1) mod length protos)) \<and>
     proto_up_loop protos (protos ! i) (length protos) = Inr (protos ! ((i + length protos - 1) mod length protos)) \<and>
     gbind (proto_down_loop protos (protos ! i) 0 (length protos)) (\<lambda>p. proto_up_loop protos p (length protos)) =
       Inr (protos ! i)"
proof -
  let ?j = "(i + 1) mod length protos"
  have j: "?j < length protos" using assms(2) by (intro mod_less_divisor) linarith
  have "(?j + length protos - 1) mod length protos = i"
    using assms(2) by (cases "i + 1 < length protos") (simp_all add: mod_if le_Suc_eq not_less)
  then show ?thesis
    using proto_down_loop_found [OF assms, of 0] proto_up_loop_found [OF assms(1)] assms(2) j by simp
qed

theorem filter_choice_cycles_witness:
  "proto_down_loop all_protos ''sctp'' 0 (length all_protos) = Inr '''' \<and>
   proto_up_loop all_protos '''' (length all_protos) = Inr ''sctp''"
  using filter_choice_cycles [of all_protos 11] filter_choice_cycles [of all_protos 0]
  by (simp del: proto_down_loop.simps proto_up_loop.simps)

subsection \<open>Keys\<close>

lemma not_quit:
  "gbind m (\<lambda>d. Inr (d, NoCmd)) \<noteq> Inr (d', Quit)"
  by (cases m) simp_all

lemma main_key_quit: "main_key s st key d = Inr (d', Quit) \<longleftrightarrow> key \<in> set [''q'', ''ctrl+c''] \<and> d' = d"
  by (simp add: main_key_def Let_def not_quit) blast

text \<open>
  C11: Keys act by mode. The program quits exactly when q or ctrl+c is pressed in the main view, nothing of the dashboard
  changing. The help dialog is closed by esc, q and the question mark and reacts to no other key. In the filter dialog q and ctrl+c do nothing and
  esc closes it, discarding the choice. In the drill-down view q and esc go back to the main view, dropping the frozen flows and
  packets, and ctrl+c does nothing.
\<close>

theorem keys_act_by_mode:
  "(handleKeypress s st key d = Inr (d', Quit) \<longleftrightarrow>
      \<not> d_helpMode d \<and> \<not> d_filterMode d \<and> \<not> d_drillMode d \<and> key \<in> set [''q'', ''ctrl+c''] \<and> d' = d) \<and>
   (handleKeypress s st key (d\<lparr>d_helpMode := True\<rparr>) =
      Inr (d\<lparr>d_helpMode := (key \<notin> set [''esc'', ''q'', ''?''])\<rparr>, NoCmd)) \<and>
   map (\<lambda>k. handleKeypress s st k (d\<lparr>d_helpMode := False, d_filterMode := True\<rparr>)) [''q'', ''ctrl+c'', ''esc''] =
     [Inr (d\<lparr>d_helpMode := False, d_filterMode := True\<rparr>, NoCmd), Inr (d\<lparr>d_helpMode := False, d_filterMode := True\<rparr>, NoCmd),
      Inr (d\<lparr>d_helpMode := False, d_filterMode := False, d_filterInput := ''''\<rparr>, NoCmd)] \<and>
   map (\<lambda>k. handleKeypress s st k (d\<lparr>d_helpMode := False, d_filterMode := False, d_drillMode := True\<rparr>)) [''q'', ''esc'', ''ctrl+c''] =
     [Inr (d\<lparr>d_helpMode := False, d_filterMode := False, d_drillMode := False, d_drillScroll := 0, d_frozenFlows := [], d_cachedPackets := []\<rparr>, NoCmd),
      Inr (d\<lparr>d_helpMode := False, d_filterMode := False, d_drillMode := False, d_drillScroll := 0, d_frozenFlows := [], d_cachedPackets := []\<rparr>, NoCmd),
      Inr (d\<lparr>d_helpMode := False, d_filterMode := False, d_drillMode := True\<rparr>, NoCmd)]"
proof (intro conjI)
  show "handleKeypress s st key d = Inr (d', Quit) \<longleftrightarrow>
      \<not> d_helpMode d \<and> \<not> d_filterMode d \<and> \<not> d_drillMode d \<and> key \<in> set [''q'', ''ctrl+c''] \<and> d' = d"
    unfolding handleKeypress_def by (simp add: not_quit main_key_quit del: set_simps)
  show "handleKeypress s st key (d\<lparr>d_helpMode := True\<rparr>) =
      Inr (d\<lparr>d_helpMode := (key \<notin> set [''esc'', ''q'', ''?''])\<rparr>, NoCmd)"
    by (simp add: handleKeypress_def help_key_def)
qed (simp_all add: handleKeypress_def filter_key_def drill_key_def)

text \<open>The selected row lies in the window that the table shows, and is a row of the table.\<close>

definition in_window :: "Dashboard \<Rightarrow> bool" where
  "in_window d \<longleftrightarrow> d_tableScroll d \<le> d_selectedFlow d \<and>
     d_selectedFlow d < d_tableScroll d + table_rows (d_height d) \<and>
     (d_flows d = [] \<or> d_selectedFlow d < int (length (d_flows d)))"

lemma table_rows_pos: "3 \<le> table_rows h"
  by (simp add: table_rows_def)

lemma track_selection_frame:
  assumes "track_selection st d = Inr d'"
  shows "\<exists>i. d' = d\<lparr>d_selectedFlowId := i\<rparr>"
proof (cases "d_selectedFlow d < int (length (d_flows d))")
  case True
  then show ?thesis using assms by (auto simp: track_selection_def gbind_Inr_iff)
next
  case False
  then have "d' = d\<lparr>d_selectedFlowId := d_selectedFlowId d\<rparr>" using assms by (simp add: track_selection_def)
  then show ?thesis by blast
qed

lemma enter_drill_frame:
  "enter_drill st d = Inr d' \<Longrightarrow> d_tableScroll d' = d_tableScroll d \<and> d_selectedFlow d' = d_selectedFlow d \<and>
     d_height d' = d_height d \<and> d_flows d' = d_flows d"
  by (auto simp: enter_drill_def Let_def gbind_Inr_iff split: if_splits)

lemma window_holds_selection:
  assumes "in_window d" and "0 \<le> d_tableScroll d" and "length (d_flows d) \<le> 200" and "d_flows d \<noteq> []"
  shows "window_start d \<le> d_selectedFlow d" "d_selectedFlow d < window_end d"
proof -
  have n: "length (take 200 (d_flows d)) = length (d_flows d)" using assms(3) by simp
  have "0 < length (d_flows d)" using assms(4) by simp
  then show "window_start d \<le> d_selectedFlow d" "d_selectedFlow d < window_end d"
    using assms(1,2,4) unfolding window_end_def window_start_def n clamp_table_scroll_def Let_def in_window_def
    by (auto split: if_splits)
qed

text \<open>Where a key of the main view takes the selection.\<close>

definition selection_after :: "string \<Rightarrow> Dashboard \<Rightarrow> int" where
  "selection_after key d =
     (if key \<in> set [''up'', ''k''] then (if d_selectedFlow d > 0 then d_selectedFlow d - 1 else d_selectedFlow d)
      else if key \<in> set [''down'', ''j''] then
        (if d_selectedFlow d + 1 < int (length (d_flows d)) then d_selectedFlow d + 1 else d_selectedFlow d)
      else if key = ''s'' then 0 else d_selectedFlow d)"

lemma main_key_selection:
  assumes "slice_sort s" and "in_window d" and "0 \<le> d_tableScroll d" and main: "main_key s st key d = Inr (d', c)"
  shows "in_window d' \<and> 0 \<le> d_tableScroll d' \<and> d_selectedFlow d' = selection_after key d \<and>
    (key = ''s'' \<longrightarrow> d_tableScroll d' = 0) \<and> length (d_flows d') = length (d_flows d)"
proof -
  have sorted: "length (s lt xs) = length xs" for lt and xs :: "nat list"
    by (rule slice_sort.length_sorted [OF assms(1)])
  note rows = table_rows_pos [of "d_height d"]
  consider (up) "key \<in> set [''up'', ''k'']" | (down) "key \<in> set [''down'', ''j'']" | (enter) "key = ''enter''"
    | (other) "key \<notin> set [''up'', ''k'', ''down'', ''j'', ''enter'']" by auto
  then show ?thesis
  proof cases
    case up
    then have sel: "selection_after key d = (if d_selectedFlow d > 0 then d_selectedFlow d - 1 else d_selectedFlow d)"
      and not_s: "key \<noteq> ''s''" by (simp_all only: selection_after_def if_True) auto
    show ?thesis
      using main [unfolded main_key_up [OF up]] not_s assms(2,3) rows unfolding sel
      by (auto simp: scroll_up_def in_window_def gbind_Inr_iff dest!: track_selection_frame split: if_splits)
  next
    case down
    then have sel: "selection_after key d =
        (if d_selectedFlow d + 1 < int (length (d_flows d)) then d_selectedFlow d + 1 else d_selectedFlow d)"
      and not_s: "key \<noteq> ''s''" by (auto simp: selection_after_def)
    show ?thesis
      using main [unfolded main_key_down [OF down]] not_s assms(2,3) rows unfolding sel
      by (auto simp: scroll_down_def in_window_def gbind_Inr_iff dest!: track_selection_frame split: if_splits)
  next
    case enter
    then show ?thesis
      using main assms(2,3) by (auto simp: main_key_def Let_def in_window_def selection_after_def gbind_Inr_iff dest!: enter_drill_frame)
  next
    case other
    have len: "length (d_flows (sortFlows s st x)) = length (d_flows x)" for x by (simp add: sortFlows_flows sorted)
    then have none: "d_flows (sortFlows s st x) = [] \<longleftrightarrow> d_flows x = []" for x by (metis length_0_conv)
    from other show ?thesis
      using main assms(2,3) rows
      by (auto simp: main_key_def Let_def in_window_def selection_after_def len none split: if_splits)
  qed
qed

text \<open>
  C7: The selection stays on screen. In the main view, with the selection among the rows from the table's scroll position down, up and k move the selection one row up, down and j one row
  down, stopping at the first and last flow; s, which sorts by the next criterion, goes back to the first row with the table scrolled to its top; no
  other key moves it, and it stays among the rows from the scroll position down. As long as there are at most the 200 flows that the table draws, the selected row is always among the rows drawn afterwards.
\<close>

theorem selection_stays_on_screen:
  assumes "slice_sort s" and "in_window d" and "0 \<le> d_tableScroll d"
    and "\<not> d_helpMode d" and "\<not> d_filterMode d" and "\<not> d_drillMode d"
    and run: "handleKeypress s st key d = Inr (d', c)"
  shows "in_window d' \<and> 0 \<le> d_tableScroll d' \<and>
    (d_flows d \<noteq> [] \<and> length (d_flows d) \<le> 200 \<longrightarrow>
       window_start d' \<le> d_selectedFlow d' \<and> d_selectedFlow d' < window_end d') \<and>
    d_selectedFlow d' =
      (if key \<in> set [''up'', ''k''] then (if d_selectedFlow d > 0 then d_selectedFlow d - 1 else d_selectedFlow d)
       else if key \<in> set [''down'', ''j''] then
         (if d_selectedFlow d + 1 < int (length (d_flows d)) then d_selectedFlow d + 1 else d_selectedFlow d)
       else if key = ''s'' then 0 else d_selectedFlow d) \<and>
    (key = ''s'' \<longrightarrow> d_tableScroll d' = 0)"
proof -
  have "main_key s st key d = Inr (d', c)" using assms(4-7) by (simp add: handleKeypress_def)
  note k = main_key_selection [OF assms(1-3) this]
  have "window_start d' \<le> d_selectedFlow d' \<and> d_selectedFlow d' < window_end d'"
    if "d_flows d \<noteq> []" "length (d_flows d) \<le> 200"
    using window_holds_selection [of d'] k that by (metis length_0_conv)
  with k show ?thesis unfolding selection_after_def by blast
qed

theorem selection_stays_on_screen_witness:
  "\<exists>d' c. handleKeypress insertion_sort empty_store ''down'' ((NewDashboard 0)\<lparr>d_flows := [0, 1]\<rparr>) = Inr (d', c) \<and>
     d_selectedFlow d' = 1 \<and> window_start d' \<le> 1 \<and> 1 < window_end d'"
proof -
  let ?d = "(NewDashboard 0)\<lparr>d_flows := [0, 1]\<rparr>"
  have w: "in_window ?d" "0 \<le> d_tableScroll ?d" "\<not> d_helpMode ?d" "\<not> d_filterMode ?d" "\<not> d_drillMode ?d"
    by (simp_all add: in_window_def NewDashboard_def table_rows_def)
  have "\<exists>d' c. handleKeypress insertion_sort empty_store ''down'' ?d = Inr (d', c)"
    by (simp add: handleKeypress_def main_key_def NewDashboard_def Let_def track_selection_def table_rows_def)
  then obtain d' c where run: "handleKeypress insertion_sort empty_store ''down'' ?d = Inr (d', c)" by blast
  have "d_selectedFlow ?d = 0" "d_flows ?d = [0, 1]" by (simp_all add: NewDashboard_def)
  with selection_stays_on_screen [OF go_sort_slice_sort w run] run show ?thesis by auto
qed

end
