(* ===== verification/RefreshSteps.thy ===== *)
theory RefreshSteps
  imports DashboardResults
begin

text \<open>
  A refresh access by access. \<open>updateFlows\<close> takes no lock while it copies, field by field, from the aggregator's flows
  into the displayed ones, which may be the same objects; packets are processed meanwhile. Here a refresh is a
  sequence of steps, one for each flow it looks up and one for each field it loads or stores, and operations of the aggregator may fall
  between any two of them. An operation of the aggregator is one step, although it writes field after field under its lock: an access of the dashboard
  concerns one field, which the operation has then written or not, and into a flow that the aggregator uses the dashboard stores no other value
  than the one it has loaded from the same field of the same flow, so that what has become of the other fields makes no difference. The dashboard's other handlers run in the same goroutine as
  the refresh, so they wait for its end.
\<close>

subsection \<open>The fields, in the order in which they are copied\<close>

datatype stat = S_ByteCount | S_PacketCount | S_ForwardBytes | S_ReverseBytes | S_ForwardPackets | S_ReversePackets
  | S_LastPacketTime | S_DNSQueries | S_DNSQueryNames | S_DNSFailures | S_DNSLastQuery | S_PacketHistory

definition copy_order :: "stat list" where
  "copy_order = [S_ByteCount, S_PacketCount, S_ForwardBytes, S_ReverseBytes, S_ForwardPackets, S_ReversePackets,
     S_LastPacketTime, S_DNSQueries, S_DNSQueryNames, S_DNSFailures, S_DNSLastQuery, S_PacketHistory]"

text \<open>One assignment: the field of the new flow is stored into the current flow.\<close>

fun copy_field :: "stat \<Rightarrow> Flow \<Rightarrow> Flow \<Rightarrow> Flow" where
  "copy_field S_ByteCount newFlow f = f\<lparr>flow_ByteCount := flow_ByteCount newFlow\<rparr>"
| "copy_field S_PacketCount newFlow f = f\<lparr>flow_PacketCount := flow_PacketCount newFlow\<rparr>"
| "copy_field S_ForwardBytes newFlow f = f\<lparr>flow_ForwardBytes := flow_ForwardBytes newFlow\<rparr>"
| "copy_field S_ReverseBytes newFlow f = f\<lparr>flow_ReverseBytes := flow_ReverseBytes newFlow\<rparr>"
| "copy_field S_ForwardPackets newFlow f = f\<lparr>flow_ForwardPackets := flow_ForwardPackets newFlow\<rparr>"
| "copy_field S_ReversePackets newFlow f = f\<lparr>flow_ReversePackets := flow_ReversePackets newFlow\<rparr>"
| "copy_field S_LastPacketTime newFlow f = f\<lparr>flow_LastPacketTime := flow_LastPacketTime newFlow\<rparr>"
| "copy_field S_DNSQueries newFlow f = f\<lparr>flow_DNSQueries := flow_DNSQueries newFlow\<rparr>"
| "copy_field S_DNSQueryNames newFlow f = f\<lparr>flow_DNSQueryNames := flow_DNSQueryNames newFlow\<rparr>"
| "copy_field S_DNSFailures newFlow f = f\<lparr>flow_DNSFailures := flow_DNSFailures newFlow\<rparr>"
| "copy_field S_DNSLastQuery newFlow f = f\<lparr>flow_DNSLastQuery := flow_DNSLastQuery newFlow\<rparr>"
| "copy_field S_PacketHistory newFlow f = f\<lparr>flow_PacketHistory := flow_PacketHistory newFlow\<rparr>"

fun same_field :: "stat \<Rightarrow> Flow \<Rightarrow> Flow \<Rightarrow> bool" where
  "same_field S_ByteCount f g = (flow_ByteCount f = flow_ByteCount g)"
| "same_field S_PacketCount f g = (flow_PacketCount f = flow_PacketCount g)"
| "same_field S_ForwardBytes f g = (flow_ForwardBytes f = flow_ForwardBytes g)"
| "same_field S_ReverseBytes f g = (flow_ReverseBytes f = flow_ReverseBytes g)"
| "same_field S_ForwardPackets f g = (flow_ForwardPackets f = flow_ForwardPackets g)"
| "same_field S_ReversePackets f g = (flow_ReversePackets f = flow_ReversePackets g)"
| "same_field S_LastPacketTime f g = (flow_LastPacketTime f = flow_LastPacketTime g)"
| "same_field S_DNSQueries f g = (flow_DNSQueries f = flow_DNSQueries g)"
| "same_field S_DNSQueryNames f g = (flow_DNSQueryNames f = flow_DNSQueryNames g)"
| "same_field S_DNSFailures f g = (flow_DNSFailures f = flow_DNSFailures g)"
| "same_field S_DNSLastQuery f g = (flow_DNSLastQuery f = flow_DNSLastQuery g)"
| "same_field S_PacketHistory f g = (flow_PacketHistory f = flow_PacketHistory g)"

lemma copy_same_field: "same_field s v f \<Longrightarrow> copy_field s v f = f"
  by (cases s) simp_all

lemma same_field_refl [simp]: "same_field s f f"
  by (cases s) simp_all

lemma same_field_trans: "same_field s f g \<Longrightarrow> same_field s g h \<Longrightarrow> same_field s f h"
  by (cases s) simp_all

lemma same_field_sym: "same_field s f g \<Longrightarrow> same_field s g f"
  by (cases s) simp_all

lemma copy_field_identity [simp]: "same_identity (copy_field s v f) f"
  by (cases s) (simp_all add: same_identity_def)

lemma copy_field_history: "flow_PacketHistory (copy_field s v f) \<in> {flow_PacketHistory v, flow_PacketHistory f}"
  by (cases s) simp_all

lemma copy_fields_all: "foldl (\<lambda>f s. copy_field s newFlow f) f copy_order = copy_stats newFlow f"
  by (simp add: copy_order_def copy_stats_def)

subsection \<open>The steps\<close>

text \<open>
  Where the loop over the displayed flows is: before the next flow; about to load the first of the fields that are left; or with
  a loaded value in hand (of the loaded flow only that field is used), about to store it.
\<close>

datatype loop_pc = NextFlow | Copy nat nat "stat list" | Store nat nat stat Flow "stat list"

record refresh =
  rf_newFlows :: "nat list"
  rf_newFlowMap :: "(string, nat) gmap"
  rf_todo :: "nat list"
  rf_kept :: "nat list"
  rf_pc :: loop_pc

text \<open>The snapshot, which is taken under the lock, and the map of its flows, which no one changes.\<close>

definition begin_refresh ::
    "((string, nat) gmap \<Rightarrow> (string, nat) gmap) \<Rightarrow> FlowAggregator \<Rightarrow> store \<Rightarrow> Dashboard \<Rightarrow> refresh" where
  "begin_refresh visit fa st d = (let newFlows = GetAllFlows visit fa in
     \<lparr>rf_newFlows = newFlows, rf_newFlowMap = new_flow_map st newFlows, rf_todo = d_flows d, rf_kept = [], rf_pc = NextFlow\<rparr>)"

definition refresh_access :: "store \<times> refresh \<Rightarrow> store \<times> refresh" where
  "refresh_access = (\<lambda>(st, rf). case rf_pc rf of
       NextFlow \<Rightarrow> (case rf_todo rf of
           [] \<Rightarrow> (st, rf)
         | r # rs \<Rightarrow> (case map_of (rf_newFlowMap rf) (getFlowId (flow_at st r)) of
               None \<Rightarrow> (st, rf\<lparr>rf_todo := rs\<rparr>)
             | Some new \<Rightarrow> (st, rf\<lparr>rf_todo := rs, rf_pc := Copy r new copy_order\<rparr>)))
     | Copy r new [] \<Rightarrow> (st, rf\<lparr>rf_kept := rf_kept rf @ [r], rf_pc := NextFlow\<rparr>)
     | Copy r new (s # ss) \<Rightarrow> (st, rf\<lparr>rf_pc := Store r new s (flow_at st new) ss\<rparr>)
     | Store r new s v ss \<Rightarrow>
         (st\<lparr>st_flows := (st_flows st)[r := copy_field s v (flow_at st r)]\<rparr>, rf\<lparr>rf_pc := Copy r new ss\<rparr>))"

text \<open>
  A whole operation, or a step of a refresh: its begin, an access, its end. What is not enabled changes nothing: the dashboard's
  other operations during a refresh, and the end of a refresh before the loop is done.
\<close>

datatype fine_op = Do sys_op | Begin world | Access | Finish world

type_synonym fine = "system \<times> refresh option"

fun is_agg :: "sys_op \<Rightarrow> bool" where
  "is_agg (Agg op) = True"
| "is_agg (Ui w msg) = False"
| "is_agg (Frame v) = False"

definition fine_step :: "fine \<Rightarrow> fine_op \<Rightarrow> fine go" where
  "fine_step x op = (case x of (((fa, st), d), busy) \<Rightarrow>
     (case op of
        Do sop \<Rightarrow>
          if busy = None \<or> is_agg sop then gbind (sys_step ((fa, st), d) sop) (\<lambda>s. Inr (s, busy)) else Inr x
      | Begin w \<Rightarrow>
          (case busy of
             None \<Rightarrow> Inr (((fa, st), d), if d_paused d then None else Some (begin_refresh (w_visit w) fa st d))
           | Some rf \<Rightarrow> Inr x)
      | Access \<Rightarrow>
          (case busy of
             None \<Rightarrow> Inr x
           | Some rf \<Rightarrow> (let (st', rf') = refresh_access (st, rf) in Inr (((fa, st'), d), Some rf')))
      | Finish w \<Rightarrow>
          (case busy of
             None \<Rightarrow> Inr x
           | Some rf \<Rightarrow>
               if rf_pc rf = NextFlow \<and> rf_todo rf = [] then
                 (let d1 = finish_refresh (w_sort_Slice w) (w_now w) (rf_newFlows rf) (rf_kept rf) st d
                  in Inr (((fa, st), updateStats (w_stats_now w) fa d1), None))
               else Inr x)))"

definition fine_start :: "time \<Rightarrow> duration \<Rightarrow> int \<Rightarrow> fine" where
  "fine_start now timeout bsz = (((NewFlowAggregator now timeout bsz, empty_store), NewDashboard now), None)"

definition run_fine :: "time \<Rightarrow> duration \<Rightarrow> int \<Rightarrow> fine_op list \<Rightarrow> fine go" where
  "run_fine now timeout bsz ops = gfold fine_step (fine_start now timeout bsz) ops"

text \<open>
  Sorting compares counters that packets may be changing, so that all that can be relied on is that the result is a permutation.
\<close>

definition permutes :: "sorter \<Rightarrow> bool" where
  "permutes s \<longleftrightarrow> (\<forall>lt rs. mset (s lt rs) = mset rs)"

fun fine_op_ok :: "fine_op \<Rightarrow> bool" where
  "fine_op_ok (Do op) = sys_op_ok op"
| "fine_op_ok (Begin w) = range_order (w_visit w)"
| "fine_op_ok Access = True"
| "fine_op_ok (Finish w) = permutes (w_sort_Slice w)"

fun fine_agg_ops :: "fine_op list \<Rightarrow> agg_op list" where
  "fine_agg_ops [] = []"
| "fine_agg_ops (Do op # ops) = agg_ops [op] @ fine_agg_ops ops"
| "fine_agg_ops (Begin w # ops) = fine_agg_ops ops"
| "fine_agg_ops (Access # ops) = fine_agg_ops ops"
| "fine_agg_ops (Finish w # ops) = fine_agg_ops ops"

text \<open>
  A run without a torn copy: no operation of the aggregator changes the field of a flow between the dashboard's load of that field
  and its store into the same flow.
\<close>

definition undisturbed :: "fine \<Rightarrow> fine_op \<Rightarrow> bool" where
  "undisturbed x op = (case (x, op) of
     ((((fa, st), d), Some rf), Do (Agg aop)) \<Rightarrow>
       (case (rf_pc rf, agg_step (fa, st) aop) of
          (Store r new s v ss, Inr (fa', st')) \<Rightarrow> r = new \<longrightarrow> same_field s (flow_at st' r) (flow_at st r)
        | _ \<Rightarrow> True)
   | _ \<Rightarrow> True)"

fun clean_run :: "fine \<Rightarrow> fine_op list \<Rightarrow> bool" where
  "clean_run x [] = True"
| "clean_run x (op # ops) = (undisturbed x op \<and> (case fine_step x op of Inr x' \<Rightarrow> clean_run x' ops | Inl p \<Rightarrow> True))"

subsection \<open>What the aggregator does to the flows meanwhile\<close>

lemma get_or_create_refs:
  assumes "get_or_create now evt (fa, st) = Inr (r, fa', st')"
  shows "length (st_rings st) \<le> length (st_rings st') \<and> live_refs fa' \<subseteq> insert (length (st_flows st)) (live_refs fa)"
  using assms
  by (auto simp: get_or_create_def Let_def gbind_Inr_iff update_conv' ran_def split: option.splits if_splits)

lemma processEvent_refs:
  assumes run: "processEvent now evt (fa, st) = Inr (fa', st')"
  shows "length (st_rings st) \<le> length (st_rings st') \<and> live_refs fa' \<subseteq> insert (length (st_flows st)) (live_refs fa)"
proof -
  let ?fa = "fa\<lparr>fa_globalStats := (fa_globalStats fa)\<lparr>gs_TotalPackets := gs_TotalPackets (fa_globalStats fa) + 1,
       gs_TotalBytes := gs_TotalBytes (fa_globalStats fa) + ucast (evt_Len evt), gs_LastUpdated := now\<rparr>\<rparr>"
  from run obtain r st1 where
    "get_or_create now evt (?fa, st) = Inr (r, fa', st1)" and "length (st_rings st') = length (st_rings st1)"
    by (auto simp: processEvent_def gbind_Inr_iff Let_def split: prod.splits)
  with get_or_create_refs [OF this(1)] show ?thesis by simp
qed

text \<open>A flow enters the map only when it is new, and histories are never removed.\<close>

lemma agg_step_refs:
  assumes sim: "sim m (fa, st)" and op: "op_ok op" and run: "agg_step (fa, st) op = Inr (fa', st')"
  shows "length (st_rings st) \<le> length (st_rings st') \<and> live_refs fa' \<subseteq> insert (length (st_flows st)) (live_refs fa)"
proof (cases op)
  case (Event now evt)
  then show ?thesis using processEvent_refs run by simp
next
  case (Idle visit now)
  have visit: "range_order visit" and wf: "wf_map (fa_flows fa)"
    and refs: "\<forall>(k, r) \<in> set (fa_flows fa). r < length (st_flows st)"
    using op Idle sim live_flow [OF sim] by (auto simp: sim_def)
  from closeIdleFlows_result [OF visit wf refs, of now] obtain m' where
    swept: "closeIdleFlows visit now (fa, st) = Inr (fa\<lparr>fa_flows := m'\<rparr>, close_flows now (fa_flowTimeout fa) (fa_flows fa) st)"
    and m': "\<forall>k. map_of m' k = (if stale now fa st k then None else map_of (fa_flows fa) k)" by blast
  have "map_of (fa_flows fa) k = Some r" if "map_of m' k = Some r" for k r
    using that m' [rule_format, of k] by (simp split: if_splits)
  then have "ran (map_of m') \<subseteq> ran (map_of (fa_flows fa))" by (auto simp: ran_def)
  then show ?thesis using run Idle swept by (auto simp: close_flows_def)
qed

subsection \<open>The invariant of a refresh\<close>

text \<open>The flows the dashboard will show, of those it showed before: kept, at hand, and not yet looked at.\<close>

definition at_hand :: "loop_pc \<Rightarrow> nat list" where
  "at_hand pc = (case pc of NextFlow \<Rightarrow> [] | Copy r new ss \<Rightarrow> [r] | Store r new s v ss \<Rightarrow> [r])"

definition old_flows :: "refresh \<Rightarrow> nat list" where
  "old_flows rf = rf_kept rf @ at_hand (rf_pc rf) @ rf_todo rf"

definition pc_ok :: "store \<Rightarrow> refresh \<Rightarrow> bool" where
  "pc_ok st rf = (case rf_pc rf of
       NextFlow \<Rightarrow> True
     | Copy r new ss \<Rightarrow> new \<in> set (rf_newFlows rf) \<and> getFlowId (flow_at st r) = getFlowId (flow_at st new)
     | Store r new s v ss \<Rightarrow> new \<in> set (rf_newFlows rf) \<and> getFlowId (flow_at st r) = getFlowId (flow_at st new) \<and>
         (r = new \<longrightarrow> same_field s v (flow_at st r)) \<and> flow_PacketHistory v < length (st_rings st))"

text \<open>
  A displayed flow with the identity of a flow in the snapshot is that flow, or it is none of the aggregator's any more.
\<close>

definition refresh_inv :: "FlowAggregator \<Rightarrow> store \<Rightarrow> refresh \<Rightarrow> bool" where
  "refresh_inv fa st rf \<longleftrightarrow>
     (\<forall>r \<in> set (rf_newFlows rf) \<union> set (old_flows rf). r < length (st_flows st)) \<and>
     distinct (ids st (rf_newFlows rf)) \<and> distinct (ids st (old_flows rf)) \<and>
     (\<forall>k r. map_of (rf_newFlowMap rf) k = Some r \<longleftrightarrow> r \<in> set (rf_newFlows rf) \<and> getFlowId (flow_at st r) = k) \<and>
     (\<forall>q \<in> set (old_flows rf). \<forall>n \<in> set (rf_newFlows rf).
        getFlowId (flow_at st q) = getFlowId (flow_at st n) \<longrightarrow> q = n \<or> q \<notin> live_refs fa) \<and>
     pc_ok st rf"

lemma refresh_inv_stable:
  assumes inv: "refresh_inv fa st rf" and ext: "extends st st'" and rings: "length (st_rings st) \<le> length (st_rings st')"
    and live: "live_refs fa' \<subseteq> insert (length (st_flows st)) (live_refs fa)"
    and untorn: "\<And>r s v ss. rf_pc rf = Store r r s v ss \<Longrightarrow> same_field s (flow_at st' r) (flow_at st r)"
  shows "refresh_inv fa' st' rf"
proof -
  let ?all = "set (rf_newFlows rf) \<union> set (old_flows rf)"
  have len: "\<forall>r \<in> ?all. r < length (st_flows st)" using inv by (simp add: refresh_inv_def)
  have ident: "getFlowId (flow_at st' r) = getFlowId (flow_at st r)" if "r \<in> ?all" for r
    using that len ext by (auto simp: extends_def flow_at_def intro: getFlowId_cong)
  have ids: "ids st' (rf_newFlows rf) = ids st (rf_newFlows rf)" "ids st' (old_flows rf) = ids st (old_flows rf)"
    using ident by simp_all
  have valid: "r < length (st_flows st')" if "r \<in> ?all" for r
    using len that ext unfolding extends_def by (meson order_less_le_trans)
  have found: "map_of (rf_newFlowMap rf) k = Some r \<longleftrightarrow> r \<in> set (rf_newFlows rf) \<and> getFlowId (flow_at st' r) = k" for k r
    using inv ident [of r] by (auto simp: refresh_inv_def)
  have same: "q = n \<or> q \<notin> live_refs fa'"
    if q: "q \<in> set (old_flows rf)" and n: "n \<in> set (rf_newFlows rf)" and same: "getFlowId (flow_at st' q) = getFlowId (flow_at st' n)" for q n
  proof -
    have "getFlowId (flow_at st q) = getFlowId (flow_at st n)" using same ident q n by simp
    then have "q = n \<or> q \<notin> live_refs fa" using inv q n unfolding refresh_inv_def by blast
    moreover have "q \<noteq> length (st_flows st)" using len q by auto
    ultimately show ?thesis using live by blast
  qed
  have pc: "pc_ok st' rf"
  proof (cases "rf_pc rf")
    case NextFlow
    then show ?thesis by (simp add: pc_ok_def)
  next
    case (Copy r new ss)
    then have "r \<in> ?all" "new \<in> ?all" using inv by (simp_all add: refresh_inv_def pc_ok_def old_flows_def at_hand_def)
    then show ?thesis using inv Copy ident by (simp add: refresh_inv_def pc_ok_def)
  next
    case (Store r new s v ss)
    then have all: "r \<in> ?all" "new \<in> ?all" using inv by (simp_all add: refresh_inv_def pc_ok_def old_flows_def at_hand_def)
    have "same_field s v (flow_at st' r)" if "r = new"
      using inv Store that same_field_trans [OF _ same_field_sym [OF untorn], of s v r]
      by (auto simp: refresh_inv_def pc_ok_def)
    then show ?thesis using inv Store ident all rings by (simp add: refresh_inv_def pc_ok_def)
  qed
  have "distinct (ids st (rf_newFlows rf))" "distinct (ids st (old_flows rf))" using inv by (simp_all only: refresh_inv_def)
  then show ?thesis
    unfolding refresh_inv_def ids using valid found same pc by (intro conjI ballI allI impI) simp_all
qed

subsection \<open>Each step of a refresh keeps the invariants\<close>

lemma begin_refresh_ok:
  assumes sim: "sim m (fa, st)" and d: "dash_ok st d" and visit: "range_order visit"
  shows "refresh_inv fa st (begin_refresh visit fa st d)"
proof -
  note L = live_flows [OF sim visit]
  have "valid_refs st d" using d by (simp add: dash_ok_def)
  then have "\<forall>r \<in> set (d_flows d). r < length (st_flows st)" "distinct (ids st (d_flows d))"
    by (simp_all add: valid_refs_def)
  then show ?thesis
    using L live_ids_inject [OF sim] map_of_new_flow_map [OF L(3)]
    by (auto simp: refresh_inv_def begin_refresh_def old_flows_def at_hand_def pc_ok_def Let_def)
qed

text \<open>An access that only moves the loop on.\<close>

lemma refresh_inv_next:
  assumes "refresh_inv fa st rf" and "rf_newFlows rf' = rf_newFlows rf" and "rf_newFlowMap rf' = rf_newFlowMap rf"
    and "set (old_flows rf') \<subseteq> set (old_flows rf)" and "distinct (ids st (old_flows rf'))" and "pc_ok st rf'"
  shows "refresh_inv fa st rf'"
proof -
  have len: "\<forall>r \<in> set (rf_newFlows rf) \<union> set (old_flows rf'). r < length (st_flows st)"
    using assms(1,4) unfolding refresh_inv_def by (meson Un_iff subsetD)
  have same: "\<forall>q \<in> set (old_flows rf'). \<forall>n \<in> set (rf_newFlows rf).
      getFlowId (flow_at st q) = getFlowId (flow_at st n) \<longrightarrow> q = n \<or> q \<notin> live_refs fa"
    using assms(1,4) unfolding refresh_inv_def by (meson subsetD)
  show ?thesis
    using assms(1) unfolding refresh_inv_def [of fa st rf'] assms(2,3)
    using len same assms(5,6) by (simp only: refresh_inv_def simp_thms)
qed

text \<open>A store into a flow of the aggregator writes the value the field has; any other store leaves the aggregator's flows alone.\<close>

lemma store_field_ok:
  assumes ok: "system_ok timeout m es ((fa, st), d)" and inv: "refresh_inv fa st rf" and pc: "rf_pc rf = Store r new s v ss"
    and st': "st' = st\<lparr>st_flows := (st_flows st)[r := copy_field s v (flow_at st r)]\<rparr>"
  shows "system_ok timeout m es ((fa, st'), d) \<and> extends st st' \<and> st_rings st' = st_rings st"
proof (cases "r = new")
  case True
  then have "copy_field s v (flow_at st r) = flow_at st r"
    using inv pc by (simp add: refresh_inv_def pc_ok_def copy_same_field)
  then have "st' = st" by (simp add: st' flow_at_def)
  then show ?thesis using ok by simp
next
  case False
  have sim: "sim m (fa, st)" and store: "store_ok st" and d: "dash_ok st d" using ok by (simp_all add: system_ok_def)
  have p: "new \<in> set (rf_newFlows rf)" "getFlowId (flow_at st r) = getFlowId (flow_at st new)"
    "flow_PacketHistory v < length (st_rings st)" "r \<in> set (old_flows rf)"
    using inv pc by (simp_all add: refresh_inv_def pc_ok_def old_flows_def at_hand_def)
  have r: "r < length (st_flows st)" using inv p(4) unfolding refresh_inv_def by blast
  have "r \<notin> live_refs fa" using inv p False unfolding refresh_inv_def by blast
  then have "\<forall>q \<in> live_refs fa. flow_at st' q = flow_at st q"
    by (metis st' flow_at_def nth_list_update_neq store.select_convs(1) store.surjective store.update_convs(1))
  then have "sim m (fa, st')" by (intro sim_same_flows [OF sim]) (simp_all add: st')
  moreover have "flow_PacketHistory (flow_at st r) < length (st_rings st)" using store r by (simp add: store_ok_def flow_at_def)
  then have "flow_PacketHistory (copy_field s v (flow_at st r)) < length (st_rings st)"
    using p(3) copy_field_history [of s v "flow_at st r"] by auto
  then have "store_ok st'"
    using store by (auto simp: st' store_ok_def dest!: subsetD [OF set_update_subset_insert])
  moreover have ext: "extends st st'"
    using extends_update [of "copy_field s v (flow_at st r)" st r "st_rings st"] by (simp add: st' flow_at_def)
  then have "dash_ok st' d" using d valid_refs_extends by (auto simp: dash_ok_def)
  ultimately show ?thesis using ok ext by (simp add: system_ok_def st')
qed

lemma refresh_access_ok:
  assumes ok: "system_ok timeout m es ((fa, st), d)" and inv: "refresh_inv fa st rf"
    and run: "refresh_access (st, rf) = (st', rf')"
  shows "system_ok timeout m es ((fa, st'), d) \<and> refresh_inv fa st' rf'"
proof (cases "rf_pc rf")
  case NextFlow
  show ?thesis
  proof (cases "rf_todo rf")
    case Nil
    then show ?thesis using run NextFlow ok inv by (simp add: refresh_access_def)
  next
    case (Cons r rs)
    then have st': "st' = st" using run NextFlow by (auto simp: refresh_access_def split: option.splits)
    have "distinct (ids st (old_flows rf))" using inv by (simp add: refresh_inv_def)
    then have "distinct (ids st (rf_kept rf @ r # rs))" "distinct (ids st (rf_kept rf @ rs))"
      using NextFlow Cons by (simp_all add: old_flows_def at_hand_def)
    moreover have "old_flows rf' \<in> {rf_kept rf @ r # rs, rf_kept rf @ rs}"
      using run NextFlow Cons by (auto simp: refresh_access_def old_flows_def at_hand_def split: option.splits)
    moreover have "old_flows rf = rf_kept rf @ r # rs" using NextFlow Cons by (simp add: old_flows_def at_hand_def)
    moreover have "pc_ok st rf'" "rf_newFlows rf' = rf_newFlows rf" "rf_newFlowMap rf' = rf_newFlowMap rf"
      using run NextFlow Cons inv by (auto simp: refresh_access_def refresh_inv_def pc_ok_def split: option.splits)
    ultimately have "refresh_inv fa st rf'"
      by (intro refresh_inv_next [OF inv]) (auto simp del: map_append)
    then show ?thesis using ok by (simp add: st')
  qed
next
  case (Copy r new ss)
  have hist: "flow_PacketHistory (flow_at st new) < length (st_rings st)"
    using ok inv Copy by (auto simp: system_ok_def store_ok_def refresh_inv_def pc_ok_def flow_at_def)
  have st': "st' = st" using run Copy by (cases ss) (simp_all add: refresh_access_def)
  have "distinct (ids st (old_flows rf))" using inv by (simp only: refresh_inv_def)
  moreover have "old_flows rf' = old_flows rf"
    using run Copy by (cases ss) (auto simp: refresh_access_def old_flows_def at_hand_def)
  moreover have "pc_ok st rf'" "rf_newFlows rf' = rf_newFlows rf" "rf_newFlowMap rf' = rf_newFlowMap rf"
    using run Copy inv hist by (cases ss; auto simp: refresh_access_def refresh_inv_def pc_ok_def)+
  ultimately have "refresh_inv fa st rf'" by (intro refresh_inv_next [OF inv]) simp_all
  then show ?thesis using ok by (simp add: st')
next
  case (Store r new s v ss)
  then have st': "st' = st\<lparr>st_flows := (st_flows st)[r := copy_field s v (flow_at st r)]\<rparr>"
    and rf': "rf' = rf\<lparr>rf_pc := Copy r new ss\<rparr>" using run by (simp_all add: refresh_access_def)
  note stored = store_field_ok [OF ok inv Store st']
  have "distinct (ids st (old_flows rf))" using inv by (simp only: refresh_inv_def)
  moreover have "old_flows rf' = old_flows rf" using Store by (simp add: rf' old_flows_def at_hand_def)
  moreover have "pc_ok st rf'" using Store inv by (simp add: rf' refresh_inv_def pc_ok_def)
  ultimately have "refresh_inv fa st rf'" by (intro refresh_inv_next [OF inv]) (simp_all add: rf')
  then have "refresh_inv fa st' rf'"
    using stored by (intro refresh_inv_stable [of fa st rf' st' fa]) (auto simp: rf')
  then show ?thesis using stored by blast
qed

text \<open>The end of a refresh in one assignment.\<close>

lemma finish_refresh_result:
  assumes "permutes s" and xs: "xs = kept @ filter (\<lambda>r. getFlowId (flow_at st r) \<notin> set (ids st kept)) L"
  shows "finish_refresh s now L kept st d = d\<lparr>d_flows := s (flow_less (d_sortBy d) st) xs, d_allFlows := L, d_shared := False,
     d_selectedFlow := (if d_selectedFlowId d \<noteq> ''''
       then select_loop st (d_selectedFlowId d) 0 (s (flow_less (d_sortBy d) st) xs) (d_selectedFlow d) else d_selectedFlow d),
     d_lastUpdate := now\<rparr>"
proof -
  have "mset (s (flow_less (d_sortBy d) st) xs) = mset xs" using assms(1) by (simp add: permutes_def)
  then have "s (flow_less (d_sortBy d) st) xs = [] \<longleftrightarrow> xs = []" by (metis mset_zero_iff)
  then show ?thesis
    unfolding finish_refresh_def Let_def xs [symmetric]
    by (cases "xs = []") (simp_all add: sortFlows_def Let_def)
qed

lemma finish_refresh_ok:
  assumes ok: "system_ok timeout m es ((fa, st), d)" and inv: "refresh_inv fa st rf"
    and fin: "rf_pc rf = NextFlow" "rf_todo rf = []" and s: "permutes s"
  shows "system_ok timeout m es ((fa, st), updateStats stats_now fa (finish_refresh s now (rf_newFlows rf) (rf_kept rf) st d))"
proof -
  let ?L = "rf_newFlows rf" and ?kept = "rf_kept rf"
  let ?added = "filter (\<lambda>r. getFlowId (flow_at st r) \<notin> set (ids st ?kept)) ?L"
  define ys where "ys = s (flow_less (d_sortBy d) st) (?kept @ ?added)"
  define j where "j = select_loop st (d_selectedFlowId d) 0 ys (d_selectedFlow d)"
  define d' where "d' = finish_refresh s now ?L ?kept st d"
  have d': "d' = d\<lparr>d_flows := ys, d_allFlows := ?L, d_shared := False,
      d_selectedFlow := (if d_selectedFlowId d \<noteq> '''' then j else d_selectedFlow d), d_lastUpdate := now\<rparr>"
    unfolding d'_def j_def ys_def by (rule finish_refresh_result [OF s refl])
  have d: "valid_refs st d" "positions_ok d" "choices_ok d" and big: "big_enough d"
    using ok by (simp_all add: system_ok_def dash_ok_def)
  have old: "old_flows rf = ?kept" using fin by (simp add: old_flows_def at_hand_def)
  have refs: "\<forall>r \<in> set ?L \<union> set ?kept. r < length (st_flows st)" "distinct (ids st ?L)" "distinct (ids st ?kept)"
    using inv unfolding refresh_inv_def old by blast+
  have perm: "mset ys = mset (?kept @ ?added)" using s by (simp add: ys_def permutes_def)
  then have set_ys: "set ys = set ?kept \<union> set ?added" by (metis set_mset_mset set_append)
  have "distinct (ids st ?added)" using refs(2) by (simp only: distinct_map_filter)
  moreover have "set (ids st ?kept) \<inter> set (ids st ?added) = {}"
    unfolding ids_filter [of st "\<lambda>k. k \<notin> set (ids st ?kept)" ?L] by blast
  ultimately have "distinct (ids st (?kept @ ?added))" using refs(3) by (simp only: map_append distinct_append)
  moreover have "mset (ids st ys) = mset (ids st (?kept @ ?added))" using perm by (metis mset_map)
  ultimately have "distinct (ids st ys)" using mset_eq_imp_distinct_iff by blast
  then have "valid_refs st d'" using d(1) refs set_ys by (auto simp: valid_refs_def d')
  moreover have "0 \<le> d_selectedFlow d" using d(2) by (simp add: positions_ok_def)
  then have "0 \<le> j"
    using select_loop_found [of "d_selectedFlowId d" st ys 0 "d_selectedFlow d"] unfolding j_def by (auto split: if_splits)
  then have "positions_ok d'" using d(2) by (simp add: positions_ok_def d')
  moreover have "choices_ok d'" using d(3) by (simp add: choices_ok_def d')
  moreover have "big_enough d'" using big by (simp add: big_enough_def d')
  ultimately have "dash_ok st (updateStats stats_now fa d')" "big_enough (updateStats stats_now fa d')"
    by (simp_all add: dash_ok_updateStats dash_ok_def [of st d']) (simp add: updateStats_def big_enough_def)
  then show ?thesis using ok unfolding d'_def [symmetric] by (simp add: system_ok_def)
qed

subsection \<open>Runs\<close>

definition fine_ok :: "duration \<Rightarrow> agg_op list \<Rightarrow> fine \<Rightarrow> bool" where
  "fine_ok timeout ops x = (case x of (((fa, st), d), busy) \<Rightarrow>
     system_ok timeout (conversations timeout ops) (events_of ops) ((fa, st), d) \<and>
     (case busy of None \<Rightarrow> True | Some rf \<Rightarrow> refresh_inv fa st rf))"

lemma system_ok_ops:
  assumes "system_ok timeout (conversations timeout ops) (events_of ops) s" and "sys_op_ok op"
  shows "\<exists>s'. sys_step s op = Inr s' \<and>
    system_ok timeout (conversations timeout (ops @ agg_ops [op])) (events_of (ops @ agg_ops [op])) s'"
  using sys_step_ok [OF assms] by (cases op) (simp_all add: conversations_snoc events_of_def)

lemma fine_step_ok:
  assumes ok: "fine_ok timeout past x" and op: "fine_op_ok op" and untorn: "undisturbed x op"
  shows "\<exists>x'. fine_step x op = Inr x' \<and> fine_ok timeout (past @ fine_agg_ops [op]) x'"
proof -
  obtain fa st d busy where x: "x = (((fa, st), d), busy)" by (cases x) auto
  let ?m = "conversations timeout past" and ?es = "events_of past"
  have sys: "system_ok timeout ?m ?es ((fa, st), d)" and inv: "busy = Some rf \<Longrightarrow> refresh_inv fa st rf" for rf
    using ok by (simp_all add: fine_ok_def x)
  have sim: "sim ?m (fa, st)" and store: "store_ok st" and d: "dash_ok st d" using sys by (simp_all add: system_ok_def)
  show ?thesis
  proof (cases op)
    case (Do sop)
    then obtain fa' st' d' where step: "sys_step ((fa, st), d) sop = Inr ((fa', st'), d')"
      "system_ok timeout (conversations timeout (past @ agg_ops [sop])) (events_of (past @ agg_ops [sop])) ((fa', st'), d')"
      using system_ok_ops [OF sys, of sop] op by (auto simp del: agg_ops.simps)
    consider (none) "busy = None" | (agg) rf aop where "busy = Some rf" "sop = Agg aop"
      | (waits) rf where "busy = Some rf" "\<not> is_agg sop" by (cases busy; cases sop) auto
    then show ?thesis
    proof cases
      case none
      then show ?thesis using step Do by (simp add: x fine_step_def fine_ok_def del: agg_ops.simps)
    next
      case agg
      have run: "agg_step (fa, st) aop = Inr (fa', st')" "d' = d" using step(1) agg(2) by (auto simp: gbind_Inr_iff)
      have aok: "op_ok aop" using op Do agg(2) by simp
      have "refresh_inv fa' st' rf"
      proof (rule refresh_inv_stable [OF inv [OF agg(1)]])
        show "extends st st'" using agg_step_store [OF store sim aok run(1)] by blast
        show "length (st_rings st) \<le> length (st_rings st')" "live_refs fa' \<subseteq> insert (length (st_flows st)) (live_refs fa)"
          using agg_step_refs [OF sim aok run(1)] by blast+
        show "same_field s (flow_at st' r) (flow_at st r)" if "rf_pc rf = Store r r s v ss" for r s v ss
          using untorn that run(1) by (simp add: undisturbed_def x Do agg)
      qed
      then show ?thesis using step Do agg by (simp add: x fine_step_def fine_ok_def del: agg_ops.simps)
    next
      case waits
      then have "agg_ops [sop] = []" by (cases sop) simp_all
      then show ?thesis using waits Do ok by (simp add: x fine_step_def del: agg_ops.simps)
    qed
  next
    case (Begin w)
    then have "refresh_inv fa st (begin_refresh (w_visit w) fa st d)" using begin_refresh_ok [OF sim d] op by simp
    then show ?thesis using ok Begin by (cases busy) (simp_all add: x fine_step_def fine_ok_def)
  next
    case Access
    show ?thesis
    proof (cases busy)
      case None
      then show ?thesis using ok Access by (simp add: x fine_step_def)
    next
      case (Some rf)
      obtain st' rf' where run: "refresh_access (st, rf) = (st', rf')" by fastforce
      from refresh_access_ok [OF sys inv [OF Some] run] Some Access show ?thesis
        by (simp add: x fine_step_def fine_ok_def run)
    qed
  next
    case (Finish w)
    show ?thesis
    proof (cases busy)
      case None
      then show ?thesis using ok Finish by (simp add: x fine_step_def)
    next
      case (Some rf)
      then show ?thesis
        using ok op Finish finish_refresh_ok [OF sys inv [OF Some], of "w_sort_Slice w" "w_stats_now w" "w_now w"]
        by (simp add: x fine_step_def fine_ok_def Let_def)
    qed
  qed
qed

lemma fine_agg_ops_Cons: "fine_agg_ops (op # ops) = fine_agg_ops [op] @ fine_agg_ops ops"
  by (cases op) simp_all

lemma fine_agg_ops_append [simp]: "fine_agg_ops (xs @ ys) = fine_agg_ops xs @ fine_agg_ops ys"
  by (induction xs rule: fine_agg_ops.induct) simp_all

lemma fine_run_ok:
  assumes "fine_ok timeout past x" and "list_all fine_op_ok ops" and "clean_run x ops"
  shows "\<exists>x'. gfold fine_step x ops = Inr x' \<and> fine_ok timeout (past @ fine_agg_ops ops) x'"
  using assms
proof (induction ops arbitrary: x past)
  case (Cons op ops)
  then obtain x' where x': "fine_step x op = Inr x'" "fine_ok timeout (past @ fine_agg_ops [op]) x'"
    using fine_step_ok [of timeout past x op] by auto
  then have "\<exists>x''. gfold fine_step x' ops = Inr x'' \<and> fine_ok timeout ((past @ fine_agg_ops [op]) @ fine_agg_ops ops) x''"
    using Cons.prems by (intro Cons.IH) simp_all
  then show ?case using x'(1) by (simp add: fine_agg_ops_Cons [of op ops])
qed simp

lemma run_fine_ok:
  assumes "list_all fine_op_ok ops" and "clean_run (fine_start now timeout bsz) ops"
  shows "\<exists>fa st d busy. run_fine now timeout bsz ops = Inr (((fa, st), d), busy) \<and>
    system_ok timeout (conversations timeout (fine_agg_ops ops)) (events_of (fine_agg_ops ops)) ((fa, st), d) \<and>
    (case busy of None \<Rightarrow> True | Some rf \<Rightarrow> refresh_inv fa st rf)"
proof -
  have "fine_ok timeout [] (fine_start now timeout bsz)"
    using run_system_ok [of "[]" now timeout bsz] by (simp add: run_system_def fine_start_def fine_ok_def)
  from fine_run_ok [OF this assms] show ?thesis by (auto simp: run_fine_def fine_ok_def)
qed

subsection \<open>A refresh that nothing interrupts is \<open>updateFlows\<close>\<close>

lemma funpow_more: "(f ^^ (n + m)) x = (f ^^ m) ((f ^^ n) x)"
  by (simp add: funpow_add funpow_swap1 add.commute [of n m])

lemma copy_accesses:
  assumes "r < length (st_flows st)" and "rf_pc rf = Copy r new ss"
  shows "\<exists>n. (refresh_access ^^ n) (st, rf) =
     (st\<lparr>st_flows := (st_flows st)[r := foldl (\<lambda>f s. copy_field s (flow_at st new) f) (flow_at st r) ss]\<rparr>,
      rf\<lparr>rf_kept := rf_kept rf @ [r], rf_pc := NextFlow\<rparr>)"
  using assms
proof (induction ss arbitrary: st rf)
  case Nil
  then have "(refresh_access ^^ 1) (st, rf) = (st, rf\<lparr>rf_kept := rf_kept rf @ [r], rf_pc := NextFlow\<rparr>)"
    by (simp add: refresh_access_def)
  then show ?case by (intro exI [of _ 1]) (simp add: flow_at_def)
next
  case (Cons s ss)
  let ?st = "st\<lparr>st_flows := (st_flows st)[r := copy_field s (flow_at st new) (flow_at st r)]\<rparr>"
    and ?rf = "rf\<lparr>rf_pc := Copy r new ss\<rparr>"
  have two: "(refresh_access ^^ 2) (st, rf) = (?st, ?rf)"
    using Cons.prems(2) by (simp add: refresh_access_def numeral_2_eq_2)
  have "flow_at ?st new = flow_at st new" "flow_at ?st r = copy_field s (flow_at st new) (flow_at st r)"
    using Cons.prems(1) by (cases "r = new"; simp add: flow_at_def copy_same_field)+
  moreover have "r < length (st_flows ?st)" "rf_pc ?rf = Copy r new ss" using Cons.prems(1) by simp_all
  ultimately obtain n where n: "(refresh_access ^^ n) (?st, ?rf) =
     (?st\<lparr>st_flows := (st_flows ?st)[r := foldl (\<lambda>f s. copy_field s (flow_at st new) f) (copy_field s (flow_at st new) (flow_at st r)) ss]\<rparr>,
      ?rf\<lparr>rf_kept := rf_kept ?rf @ [r], rf_pc := NextFlow\<rparr>)"
    using Cons.IH [of ?st ?rf] by auto
  show ?case by (intro exI [of _ "2 + n"]) (simp only: funpow_more two n, simp)
qed

lemma loop_accesses:
  assumes "\<forall>r \<in> set (rf_todo rf). r < length (st_flows st)" and "rf_pc rf = NextFlow"
  shows "\<exists>n. (refresh_access ^^ n) (st, rf) =
     (fst (keep_loop (rf_newFlowMap rf) (rf_todo rf) st (rf_kept rf)),
      rf\<lparr>rf_todo := [], rf_kept := snd (keep_loop (rf_newFlowMap rf) (rf_todo rf) st (rf_kept rf))\<rparr>)"
  using assms
proof (induction "rf_todo rf" arbitrary: st rf)
  case Nil
  then show ?case by (intro exI [of _ 0]) (simp add: Nil(1) [symmetric])
next
  case (Cons r rs)
  note todo = Cons.hyps(2) [symmetric]
  have r: "r < length (st_flows st)" using Cons.prems(1) by (simp add: todo)
  let ?rf = "rf\<lparr>rf_todo := rs\<rparr>"
  show ?case
  proof (cases "map_of (rf_newFlowMap rf) (getFlowId (flow_at st r))")
    case None
    then have one: "(refresh_access ^^ 1) (st, rf) = (st, ?rf)" using Cons.prems(2) by (simp add: refresh_access_def todo)
    obtain n where "(refresh_access ^^ n) (st, ?rf) =
       (fst (keep_loop (rf_newFlowMap rf) rs st (rf_kept rf)),
        rf\<lparr>rf_todo := [], rf_kept := snd (keep_loop (rf_newFlowMap rf) rs st (rf_kept rf))\<rparr>)"
      using Cons.hyps(1) [of ?rf st] Cons.prems by (auto simp: todo)
    then show ?thesis using None by (intro exI [of _ "1 + n"]) (simp only: funpow_more one, simp add: todo)
  next
    case (Some new)
    let ?copied = "st\<lparr>st_flows := (st_flows st)[r := copy_stats (flow_at st new) (flow_at st r)]\<rparr>"
      and ?next = "rf\<lparr>rf_todo := rs, rf_kept := rf_kept rf @ [r]\<rparr>"
    have pc: "rf\<lparr>rf_todo := ts, rf_kept := ks, rf_pc := NextFlow\<rparr> = rf\<lparr>rf_todo := ts, rf_kept := ks\<rparr>" for ts ks
      using Cons.prems(2) by (cases rf) simp
    have one: "(refresh_access ^^ 1) (st, rf) = (st, rf\<lparr>rf_todo := rs, rf_pc := Copy r new copy_order\<rparr>)"
      using Some Cons.prems(2) by (simp add: refresh_access_def todo)
    obtain n where n: "(refresh_access ^^ n) (st, rf\<lparr>rf_todo := rs, rf_pc := Copy r new copy_order\<rparr>) = (?copied, ?next)"
      using copy_accesses [OF r, of "rf\<lparr>rf_todo := rs, rf_pc := Copy r new copy_order\<rparr>" new copy_order]
      by (auto simp: copy_fields_all pc)
    obtain n' where n': "(refresh_access ^^ n') (?copied, ?next) =
       (fst (keep_loop (rf_newFlowMap rf) rs ?copied (rf_kept rf @ [r])),
        rf\<lparr>rf_todo := [], rf_kept := snd (keep_loop (rf_newFlowMap rf) rs ?copied (rf_kept rf @ [r]))\<rparr>)"
      using Cons.hyps(1) [of ?next ?copied] Cons.prems by (auto simp: todo)
    show ?thesis
      using Some by (intro exI [of _ "1 + (n + n')"]) (simp only: funpow_more one n n', simp add: todo)
  qed
qed

lemma run_accesses:
  "gfold fine_step (((fa, st), d), Some rf) (replicate n Access) =
     Inr (((fa, fst ((refresh_access ^^ n) (st, rf))), d), Some (snd ((refresh_access ^^ n) (st, rf))))"
proof (induction n arbitrary: st rf)
  case (Suc n)
  obtain st' rf' where one: "refresh_access (st, rf) = (st', rf')" by fastforce
  then have "fine_step (((fa, st), d), Some rf) Access = Inr (((fa, st'), d), Some rf')" by (simp add: fine_step_def)
  then show ?case using Suc.IH [of st' rf'] one by (simp add: funpow_swap1)
qed simp

text \<open>The whole operation of \<open>sys_step\<close> is the run of a refresh whose accesses are not interrupted.\<close>

lemma uninterrupted_refresh:
  assumes "dash_ok st d" and "\<not> d_paused d"
  shows "\<exists>n. gfold fine_step (((fa, st), d), None) (Begin w # replicate n Access @ [Finish w]) =
    gbind (sys_step ((fa, st), d) (Ui w (RefreshFlowsMsg t))) (\<lambda>s. Inr (s, None))"
proof -
  let ?rf = "begin_refresh (w_visit w) fa st d"
  have rf: "rf_newFlows ?rf = GetAllFlows (w_visit w) fa" "rf_newFlowMap ?rf = new_flow_map st (GetAllFlows (w_visit w) fa)"
    "rf_todo ?rf = d_flows d" "rf_kept ?rf = []" "rf_pc ?rf = NextFlow"
    by (simp_all add: begin_refresh_def Let_def)
  have "\<forall>r \<in> set (rf_todo ?rf). r < length (st_flows st)"
    using assms(1) by (simp add: rf dash_ok_def valid_refs_def)
  from loop_accesses [OF this rf(5)] obtain n where n: "(refresh_access ^^ n) (st, ?rf) =
     (fst (keep_loop (rf_newFlowMap ?rf) (rf_todo ?rf) st (rf_kept ?rf)),
      ?rf\<lparr>rf_todo := [], rf_kept := snd (keep_loop (rf_newFlowMap ?rf) (rf_todo ?rf) st (rf_kept ?rf))\<rparr>)" by blast
  obtain st' kept where keep: "keep_loop (new_flow_map st (GetAllFlows (w_visit w) fa)) (d_flows d) st [] = (st', kept)" by fastforce
  have "updateFlows (w_sort_Slice w) (w_visit w) (w_now w) fa (st, d) =
      (st', finish_refresh (w_sort_Slice w) (w_now w) (GetAllFlows (w_visit w) fa) kept st' d)"
    using assms(2) by (simp add: updateFlows_def keep)
  moreover have "fine_step (((fa, st), d), None) (Begin w) = Inr (((fa, st), d), Some ?rf)"
    using assms(2) by (simp add: fine_step_def)
  ultimately show ?thesis
    by (intro exI [of _ n])
       (simp add: gfold_append run_accesses n, simp add: rf keep fine_step_def Update_def)
qed

subsection \<open>A concrete run\<close>

text \<open>One packet, a refresh that lists its flow, and a second refresh up to the copying of the packet counter.\<close>

definition web_packet :: PacketEvent where
  "web_packet = packet 1 2 5000 443 6 60"

definition demo_fine :: "fine_op list" where
  "demo_fine = [Do (Agg (Event 1 web_packet)), Do (Ui (demo_world undefined) (RefreshFlowsMsg 7)),
     Begin (demo_world undefined), Access, Access, Access]"

lemma demo_first_packet:
  "\<exists>fa st r. processEvent 1 web_packet (NewFlowAggregator 0 10 5000, empty_store) = Inr (fa, st) \<and>
     fa_flows fa = [(web_key, r)] \<and> r < length (st_flows st)"
proof -
  have "sim Map.empty (NewFlowAggregator 0 10 5000, empty_store)" unfolding empty_store_def by (rule sim_new)
  from processEvent_sim [OF this, of 1 web_packet] obtain fa st where
    run: "processEvent 1 web_packet (NewFlowAggregator 0 10 5000, empty_store) = Inr (fa, st)" and
    sim: "sim (group_add (1, web_packet) Map.empty) (fa, st)" by blast
  then have dom: "fst ` set (fa_flows fa) = {web_key}" and wf: "distinct (map fst (fa_flows fa))"
    by (simp_all add: sim_def wf_map_def group_add_def dom_map_of_conv_image_fst web_packet_def)
  have "length (fa_flows fa) = 1" using distinct_card [OF wf] by (simp add: dom)
  then obtain k r where "fa_flows fa = [(k, r)]" by (cases "fa_flows fa") auto
  then show ?thesis using run live_flow [OF sim, of k r] dom by auto
qed

lemma demo_fine_run:
  "\<exists>fa st d r ss rf. run_fine 0 10 5000 demo_fine = Inr (((fa, st), d), Some rf) \<and>
     rf_pc rf = Copy r r (S_PacketCount # ss) \<and> map_of (fa_flows fa) web_key = Some r"
proof -
  obtain fa st r where one: "processEvent 1 web_packet (NewFlowAggregator 0 10 5000, empty_store) = Inr (fa, st)"
    "fa_flows fa = [(web_key, r)]" "r < length (st_flows st)" using demo_first_packet by blast
  let ?w = "demo_world undefined" and ?s = "((fa, st), NewDashboard 0)"
  have flows: "GetAllFlows (w_visit ?w) fa = [r]" by (simp add: GetAllFlows_def demo_world_def one(2))
  have "\<exists>d. updateFlows (w_sort_Slice ?w) (w_visit ?w) (w_now ?w) fa (st, NewDashboard 0) = (st, d) \<and>
      d_flows d = [r] \<and> \<not> d_paused d"
    unfolding updateFlows_def flows
    by (simp add: Let_def NewDashboard_def finish_refresh_def sortFlows_def insertion_sort_def demo_world_def)
  then obtain d where "sys_step ?s (Ui ?w (RefreshFlowsMsg 7)) = Inr ((fa, st), d)" "d_flows d = [r]" "\<not> d_paused d"
    by (auto simp: Update_def updateStats_def)
  moreover have "fine_start 0 10 5000 = (((NewFlowAggregator 0 10 5000, empty_store), NewDashboard 0), None)"
    by (simp add: fine_start_def)
  moreover have "map_of (new_flow_map st [r]) (getFlowId (flow_at st r)) = Some r" by (simp add: new_flow_map_def)
  ultimately show ?thesis
    using one by (simp add: run_fine_def demo_fine_def fine_step_def begin_refresh_def refresh_access_def flows Let_def copy_order_def
        del: sys_step.simps(2))
qed

lemma clean_run_append:
  "clean_run x (xs @ ys) \<longleftrightarrow> clean_run x xs \<and> (case gfold fine_step x xs of Inr x' \<Rightarrow> clean_run x' ys | Inl p \<Rightarrow> True)"
  by (induction xs arbitrary: x) (auto split: sum.splits)

fun quiet :: "fine_op \<Rightarrow> bool" where
  "quiet (Do op) = (\<not> is_agg op)"
| "quiet _ = True"

lemma clean_run_quiet: "list_all quiet ops \<Longrightarrow> clean_run x ops"
proof (induction ops arbitrary: x)
  case (Cons op ops)
  have "undisturbed x op" using Cons.prems by (auto simp: undisturbed_def split: prod.split option.split fine_op.split sys_op.split)
  then show ?case using Cons by (auto split: sum.split)
qed simp

lemma demo_fine_ok: "list_all fine_op_ok demo_fine" "clean_run (fine_start 0 10 5000) demo_fine" "fine_agg_ops demo_fine = [Event 1 web_packet]"
proof -
  show "list_all fine_op_ok demo_fine" by (simp add: demo_fine_def) (simp add: demo_world_def range_order_rev)
  have "undisturbed (fine_start 0 10 5000) (Do (Agg (Event 1 web_packet)))" by (simp add: undisturbed_def fine_start_def)
  moreover have "clean_run x (tl demo_fine)" for x by (rule clean_run_quiet) (simp add: demo_fine_def)
  ultimately show "clean_run (fine_start 0 10 5000) demo_fine" by (simp add: demo_fine_def split: sum.split)
qed (simp add: demo_fine_def)

subsection \<open>The system, access by access\<close>

lemma live_conversations:
  assumes sim: "sim m (fa, st)"
  shows "case m k of None \<Rightarrow> map_of (fa_flows fa) k = None
    | Some es \<Rightarrow> \<exists>r. map_of (fa_flows fa) k = Some r \<and> flow_ok (hd es) (flow_at st r) es"
proof (cases "map_of (fa_flows fa) k")
  case None
  moreover have "dom (map_of (fa_flows fa)) = dom m" using sim by (simp add: sim_def)
  ultimately have "m k = None" by (metis domIff)
  then show ?thesis using None by simp
next
  case (Some r)
  from simD [OF sim this] show ?thesis using Some by (auto simp: entry_ok_def flow_at_def)
qed

text \<open>
  C5: The dashboard watches without disturbing, unless a copy is torn. Take any interleaving of packets, idle sweeps, messages
  to the dashboard, frames drawn by it (the terminal being at least eight columns by three rows) and the single loads and stores of
  its refreshes, such that the aggregator never changes a field of a flow between the dashboard's load of that field and its store into the same
  flow. Then nothing panics and, although the dashboard writes into flows it shares with
  the aggregator, every live conversation still has a flow that carries exactly what its packets
  determine, and the dashboard's own state stays well formed (positions never negative, the drilled flow
  in range, pointers valid, filter and sort order among the known ones).
\<close>

theorem dashboard_does_not_disturb:
  assumes "list_all fine_op_ok ops" and "clean_run (fine_start now timeout bsz) ops"
  shows "\<exists>fa st d busy. run_fine now timeout bsz ops = Inr (((fa, st), d), busy) \<and> dash_ok st d \<and>
     (\<forall>k. case conversations timeout (fine_agg_ops ops) k of
            None \<Rightarrow> map_of (fa_flows fa) k = None
          | Some es \<Rightarrow> \<exists>r. map_of (fa_flows fa) k = Some r \<and> flow_ok (hd es) (flow_at st r) es)"
proof -
  from run_fine_ok [OF assms] obtain fa st d busy where
    "run_fine now timeout bsz ops = Inr (((fa, st), d), busy)"
    "sim (conversations timeout (fine_agg_ops ops)) (fa, st)" "dash_ok st d" by (auto simp: system_ok_def)
  with live_conversations show ?thesis by blast
qed

text \<open>A packet of the conversation whose flow is being copied onto itself, between two of the fields; then the refresh ends.\<close>

theorem dashboard_does_not_disturb_witness:
  "\<exists>fa st d busy r. run_fine 0 10 5000 (demo_fine @ Do (Agg (Event 9 web_packet)) # replicate 30 Access @ [Finish (demo_world undefined)]) =
       Inr (((fa, st), d), busy) \<and> map_of (fa_flows fa) web_key = Some r \<and> flow_PacketCount (flow_at st r) = 2"
proof -
  let ?rest = "replicate 30 Access @ [Finish (demo_world undefined)]" and ?e = "Do (Agg (Event 9 web_packet))"
  let ?ops = "demo_fine @ ?e # ?rest"
  have "permutes insertion_sort" by (simp add: permutes_def go_sort.permutes)
  then have ok: "list_all fine_op_ok ?ops" using demo_fine_ok(1) by (simp add: demo_world_def list_all_iff)
  have "fine_agg_ops (replicate n Access) = []" for n by (induction n) simp_all
  then have agg: "fine_agg_ops ?ops = [Event 1 web_packet, Event 9 web_packet]" using demo_fine_ok(3) by simp
  obtain x rf ss r where x: "gfold fine_step (fine_start 0 10 5000) demo_fine = Inr (x, Some rf)" "rf_pc rf = Copy r r ss"
    using demo_fine_run by (auto simp: run_fine_def)
  have "undisturbed (x, Some rf) ?e" by (simp add: undisturbed_def x(2) split: prod.split)
  moreover have "clean_run y ?rest" for y by (rule clean_run_quiet) (simp add: list_all_iff)
  ultimately have "clean_run (fine_start 0 10 5000) ?ops"
    using demo_fine_ok(2) unfolding clean_run_append [of _ demo_fine] by (simp add: x(1) split: sum.split)
  from dashboard_does_not_disturb [OF ok this] obtain fa st d busy where
    run: "run_fine 0 10 5000 ?ops = Inr (((fa, st), d), busy)" and
    all: "\<And>k. case conversations 10 [Event 1 web_packet, Event 9 web_packet] k of None \<Rightarrow> map_of (fa_flows fa) k = None
          | Some es \<Rightarrow> \<exists>r. map_of (fa_flows fa) k = Some r \<and> flow_ok (hd es) (flow_at st r) es"
    unfolding agg by blast
  have "conversations 10 [Event 1 web_packet, Event 9 web_packet] web_key = Some [(1, web_packet), (9, web_packet)]"
    by (simp add: conversations_def group_add_def web_packet_def)
  then show ?thesis using run all [of web_key] by (auto simp: flow_ok_def counters_ok_def)
qed

subsection \<open>A torn copy\<close>

lemma processEvent_found:
  assumes "map_of (fa_flows fa) (getFlowKey evt) = Some r" and "processEvent now evt (fa, st) = Inr (fa', st')"
  shows "fa_flows fa' = fa_flows fa"
  using assms by (auto simp: processEvent_def get_or_create_def gbind_Inr_iff Let_def split: prod.splits)

text \<open>
  C40: A torn copy loses packets. Let a refresh be about to copy the packet counter of a live flow onto itself, after any run without torn
  copies. If a packet of that conversation is processed between the load and the store, its increment is overwritten: the packet is one of the
  conversation, its bytes are counted, but the packet counter of the flow, in the aggregator's own map, is one short.
\<close>

theorem torn_copy_loses_packets:
  assumes "list_all fine_op_ok ops" and "clean_run (fine_start now timeout bsz) ops"
    and run: "run_fine now timeout bsz ops = Inr (((fa, st), d), Some rf)"
    and pc: "rf_pc rf = Copy r r (S_PacketCount # ss)" and found: "map_of (fa_flows fa) (getFlowKey evt) = Some r"
  shows "\<exists>fa' st' rf' es.
     run_fine now timeout bsz (ops @ [Access, Do (Agg (Event t evt)), Access]) = Inr (((fa', st'), d), Some rf') \<and>
     conversations timeout (fine_agg_ops (ops @ [Access, Do (Agg (Event t evt)), Access])) (getFlowKey evt) = Some (es @ [(t, evt)]) \<and>
     map_of (fa_flows fa') (getFlowKey evt) = Some r \<and>
     flow_ByteCount (flow_at st' r) = bytes_of (es @ [(t, evt)]) \<and>
     flow_PacketCount (flow_at st' r) = of_nat (length es) \<and>
     flow_PacketCount (flow_at st' r) \<noteq> of_nat (length (es @ [(t, evt)]))"
proof -
  let ?m = "conversations timeout (fine_agg_ops ops)"
  have sim: "sim ?m (fa, st)" using run_fine_ok [OF assms(1,2)] run by (auto simp: system_ok_def)
  from simD [OF sim found] obtain es where es: "?m (getFlowKey evt) = Some es" "r < length (st_flows st)"
    "flow_PacketCount (flow_at st r) = of_nat (length es)" "es \<noteq> []"
    by (auto simp: entry_ok_def flow_ok_def counters_ok_def flow_at_def)
  from processEvent_sim [OF sim, of t evt] obtain fa' st1 where
    step: "processEvent t evt (fa, st) = Inr (fa', st1)" and sim': "sim (group_add (t, evt) ?m) (fa', st1)" by blast
  have found': "map_of (fa_flows fa') (getFlowKey evt) = Some r" using processEvent_found [OF found step] found by simp
  from simD [OF sim' this] es have r: "r < length (st_flows st1)" "flow_ByteCount (flow_at st1 r) = bytes_of (es @ [(t, evt)])"
    by (auto simp: group_add_def entry_ok_def flow_ok_def counters_ok_def flow_at_def)
  let ?rf1 = "rf\<lparr>rf_pc := Store r r S_PacketCount (flow_at st r) ss\<rparr>" and ?rf2 = "rf\<lparr>rf_pc := Copy r r ss\<rparr>"
  let ?st' = "st1\<lparr>st_flows := (st_flows st1)[r := (flow_at st1 r)\<lparr>flow_PacketCount := flow_PacketCount (flow_at st r)\<rparr>]\<rparr>"
  have "fine_step (((fa, st), d), Some rf) Access = Inr (((fa, st), d), Some ?rf1)"
    using pc by (simp add: fine_step_def refresh_access_def)
  moreover have "fine_step (((fa, st), d), Some ?rf1) (Do (Agg (Event t evt))) = Inr (((fa', st1), d), Some ?rf1)"
    using step by (simp add: fine_step_def)
  moreover have "fine_step (((fa', st1), d), Some ?rf1) Access = Inr (((fa', ?st'), d), Some ?rf2)"
    by (simp add: fine_step_def refresh_access_def)
  ultimately have "run_fine now timeout bsz (ops @ [Access, Do (Agg (Event t evt)), Access]) = Inr (((fa', ?st'), d), Some ?rf2)"
    using run by (simp add: run_fine_def gfold_append)
  moreover have "flow_at ?st' r = (flow_at st1 r)\<lparr>flow_PacketCount := of_nat (length es)\<rparr>"
    using r(1) es(3) by (simp add: flow_at_def)
  moreover have "conversations timeout (fine_agg_ops (ops @ [Access, Do (Agg (Event t evt)), Access])) (getFlowKey evt) = Some (es @ [(t, evt)])"
    using es(1) by (simp add: conversations_snoc group_add_def)
  ultimately show ?thesis
    using found' r(2)
    by (intro exI [of _ fa'] exI [of _ ?st'] exI [of _ ?rf2] exI [of _ es]) simp
qed

text \<open>Of two packets the flow counts one.\<close>

theorem torn_copy_loses_packets_witness:
  "\<exists>fa st d rf r. run_fine 0 10 5000 (demo_fine @ [Access, Do (Agg (Event 9 web_packet)), Access]) = Inr (((fa, st), d), Some rf) \<and>
     map_of (fa_flows fa) web_key = Some r \<and> flow_PacketCount (flow_at st r) = 1 \<and> flow_ByteCount (flow_at st r) = 120"
proof -
  obtain fa st d r ss rf where run: "run_fine 0 10 5000 demo_fine = Inr (((fa, st), d), Some rf)"
    and pc: "rf_pc rf = Copy r r (S_PacketCount # ss)" and found: "map_of (fa_flows fa) (getFlowKey web_packet) = Some r"
    using demo_fine_run unfolding web_packet_def by blast
  have "conversations 10 [Event 1 web_packet, Event 9 web_packet] web_key = Some ([(1, web_packet)] @ [(9, web_packet)])"
    by (simp add: conversations_def group_add_def web_packet_def)
  moreover have "getFlowKey web_packet = web_key" by (simp add: web_packet_def)
  moreover have "bytes_of [(1, web_packet)] + ucast (evt_Len web_packet) = 120"
    by (simp add: bytes_of_def web_packet_def packet_def)
  ultimately show ?thesis
    using torn_copy_loses_packets [OF demo_fine_ok(1,2) run pc found, of 9] demo_fine_ok(3) by auto
qed

end
