(* ===== verification/Throughput.thy ===== *)
theory Throughput
  imports Dashboard
begin

text \<open>
  The throughput history of the dashboard (\<open>updateThroughputHistory\<close>): a log of the newest sixty samples, and what
  a sample says. Rates are 64-bit floats; the lemmas bound what rounding can do to them.
\<close>

subsection \<open>A log of sixty samples\<close>

definition add_sample :: "ThroughputSample list \<Rightarrow> ThroughputSample \<Rightarrow> panic + ThroughputSample list" where
  "add_sample h s = Inr (push_sample h s)"

interpretation samples: bounded_log "\<lambda>h. length h \<le> 60" add_sample "\<lambda>h. h" "\<lambda>s. s" "\<lambda>h. 60"
proof
  fix h :: "ThroughputSample list" and s
  assume len: "length h \<le> 60"
  have "push_sample h s = lastn 60 (h @ [s])"
  proof (cases "length h = 60")
    case True
    then have "h \<noteq> []" by auto
    then show ?thesis using True lastn_snoc_full [of h 60 s] by (simp add: push_sample_def Let_def)
  next
    case False
    then show ?thesis using len lastn_snoc_room [of h 60 s] by (simp add: push_sample_def Let_def)
  qed
  then show "\<exists>h'. add_sample h s = Inr h' \<and> length h' \<le> 60 \<and> 60 = (60::nat) \<and> h' = lastn 60 (h @ [s])"
    by (simp add: add_sample_def)
qed simp

subsection \<open>Seconds\<close>

lemma Seconds_whole:
  assumes "0 \<le> n" and "n < 2 ^ 53"
  shows "Seconds (n * 10 ^ 9) = F64 (of_int n)"
proof -
  have "(n * 10 ^ 9) sdiv 10 ^ 9 = n" "(n * 10 ^ 9) smod 10 ^ 9 = 0"
    using assms(1) by (simp_all add: signed_divide_int_def signed_modulo_int_def abs_mult sgn_mult sgn_if)
  then show ?thesis
    using assms by (simp add: Seconds_def f_add_def f_int_def f_div_def fl_of_int)
qed

subsection \<open>Rates\<close>

text \<open>Dividing exact integers and discarding the fraction is integer division: rounding never reaches the next integer.\<close>

lemma floor_fl_div:
  assumes a: "0 \<le> a" "a < 2 ^ 53" and n: "0 < n"
  shows "\<lfloor>fl (of_int a / of_int n)\<rfloor> = a div n"
proof (cases "a = 0")
  case False
  let ?x = "of_int a / of_int n :: rat"
  have x: "0 < ?x" using False a n by simp
  have q: "of_int (a div n) \<le> ?x" using floor_divide_of_int_eq [where 'a = rat, of a n] by linarith
  have "0 \<le> a div n" using a n by (simp add: pos_imp_zdiv_nonneg_iff)
  moreover have "a div n \<le> a" using zdiv_mono2 [of a 1 n] a n by simp
  ultimately have "0 \<le> a div n" "a div n < 2 ^ 53" using a by linarith+
  then have low: "of_int (a div n) \<le> fl ?x"
    using representable_le_fl [of "a div n" 0 ?x] q by simp
  have "\<bar>fl ?x - ?x\<bar> \<le> ?x / 2 ^ 53" by (rule fl_error [OF x])
  also have "\<dots> < 1 / of_int n"
    using a n by (simp add: field_simps)
  finally have "fl ?x < ?x + 1 / of_int n" by linarith
  moreover have "?x + 1 / of_int n \<le> of_int (a div n) + 1"
  proof -
    have "a + 1 \<le> (a div n + 1) * n"
      using div_mult_mod_eq [of a n] pos_mod_bound [OF n, of a] unfolding distrib_right mult_1 by linarith
    then have "(of_int (a + 1) :: rat) \<le> of_int ((a div n + 1) * n)" by (simp only: of_int_le_iff)
    then show ?thesis using n by (simp add: field_simps)
  qed
  ultimately have "fl ?x < of_int (a div n + 1)" by simp
  with low show ?thesis by (simp add: floor_eq_iff)
qed simp

subsection \<open>What a sample says\<close>

text \<open>The whole seconds since the last sample.\<close>

definition elapsed :: "int \<Rightarrow> time \<Rightarrow> Dashboard \<Rightarrow> bool" where
  "elapsed n now d \<longleftrightarrow> now - d_lastStatsTime d = n * 10 ^ 9 \<and> 0 < n \<and> n < 2 ^ 33"

lemma elapsed_Seconds:
  assumes "elapsed n now d"
  shows "Seconds (time_Sub now (d_lastStatsTime d)) = F64 (of_int n)"
proof -
  have "time_Sub now (d_lastStatsTime d) = n * 10 ^ 9"
    using assms by (auto simp: elapsed_def time_Sub_def max_def min_def)
  then show ?thesis using assms Seconds_whole [of n] by (simp add: elapsed_def)
qed

definition rate :: "(f64 \<Rightarrow> u64) \<Rightarrow> u64 \<Rightarrow> int \<Rightarrow> u64" where
  "rate oob diff n = f_to_u64 oob (f_div (f_u64 diff) (F64 (of_int n)))"

text \<open>Due, and not the first reading: a sample is taken.\<close>

lemma updateThroughputHistory_samples:
  assumes n: "elapsed n now d" and read: "KernelStats er lookup = (p, b)"
    and not_first: "d_lastTotalPackets d \<noteq> 0 \<or> p = 0"
  shows "updateThroughputHistory oob now (Some er) lookup d =
    d\<lparr>d_throughputHistory := push_sample (d_throughputHistory d)
        \<lparr>ts_Timestamp = now, ts_BytesPerSec = rate oob (b - d_lastTotalBytes d) n,
         ts_PacketsPerSec = rate oob (p - d_lastTotalPackets d) n\<rparr>,
      d_lastStatsTime := now, d_lastTotalPackets := p, d_lastTotalBytes := b\<rparr>"
proof -
  have due: "\<not> F64 (of_int n) < F64 1" using n by (simp add: elapsed_def less_f64_def)
  have later: "\<not> (d_lastTotalPackets d = 0 \<and> 0 < p)" using not_first by auto
  show ?thesis
    unfolding updateThroughputHistory_def option.case Let_def elapsed_Seconds [OF n] if_not_P [OF due] read
      prod.case if_not_P [OF later] rate_def ..
qed

text \<open>Due, and the first reading: it is only remembered.\<close>

lemma updateThroughputHistory_first:
  assumes n: "elapsed n now d" and read: "KernelStats er lookup = (p, b)" and first: "d_lastTotalPackets d = 0 \<and> 0 < p"
  shows "updateThroughputHistory oob now (Some er) lookup d =
    d\<lparr>d_lastStatsTime := now, d_lastTotalPackets := p, d_lastTotalBytes := b\<rparr>"
proof -
  have due: "\<not> F64 (of_int n) < F64 1" using n by (simp add: elapsed_def less_f64_def)
  show ?thesis
    unfolding updateThroughputHistory_def option.case Let_def elapsed_Seconds [OF n] if_not_P [OF due] read
      prod.case if_P [OF first] ..
qed

lemma rate_exact:
  assumes "unat diff < 2 ^ 53" and "0 < n"
  shows "rate oob diff n = word_of_int (int (unat diff) div n)"
proof -
  let ?a = "int (unat diff)"
  have "?a < int (2 ^ 53)" using assms(1) by (simp only: of_nat_less_iff)
  then have a: "0 \<le> ?a" "?a < 2 ^ 53" by simp_all
  have "f_u64 diff = F64 (of_int ?a)" using fl_of_int [OF a] by (simp add: f_u64_def)
  moreover have "0 \<le> fl (of_int ?a / of_int n)" 
    using a assms(2) by (intro fl_nonneg divide_nonneg_pos) (simp_all only: of_int_0_le_iff of_int_0_less_iff)
  ultimately have trunc: "f_trunc (f_div (f_u64 diff) (F64 (of_int n))) = ?a div n"
    using floor_fl_div [OF a assms(2)] by (simp add: f_div_def f_trunc_def)
  have "?a div n \<le> ?a" "0 \<le> ?a div n"
    using zdiv_mono2 [of ?a 1 n] a assms(2) by (simp_all add: pos_imp_zdiv_nonneg_iff)
  moreover have "(2 :: int) ^ 53 \<le> 2 ^ 64" by simp
  ultimately have "0 \<le> ?a div n" "?a div n < 2 ^ 64" using a(2) by linarith+
  note range = this
  show ?thesis using range by (simp only: rate_def f_to_u64_def Let_def trunc if_True simp_thms)
qed

text \<open>
  C13: A throughput sample is exact. Let a whole number \<open>n\<close> of seconds, \<open>0 < n < 2 ^ 33\<close>, have passed since the last reading, the history hold at most sixty samples, and the kernel's
  counters have grown by less than \<open>2 ^ 53\<close>. If no packets were remembered and now there are some (the first
  reading), no sample is taken; otherwise the new sample holds the growth divided by the
  seconds, rounded down, in spite of the floating-point division, and is appended to the history, of
  which the last sixty samples are kept. Either way the counters and the time are remembered for the next reading.
\<close>

theorem throughput_sample_exact:
  assumes "elapsed n now d" and "KernelStats er lookup = (p, b)"
    and "unat (p - d_lastTotalPackets d) < 2 ^ 53" and "unat (b - d_lastTotalBytes d) < 2 ^ 53"
    and "length (d_throughputHistory d) \<le> 60"
  shows "updateThroughputHistory oob now (Some er) lookup d =
    d\<lparr>d_throughputHistory :=
        (if d_lastTotalPackets d = 0 \<and> 0 < p then d_throughputHistory d
         else lastn 60 (d_throughputHistory d @
           [\<lparr>ts_Timestamp = now, ts_BytesPerSec = word_of_int (int (unat (b - d_lastTotalBytes d)) div n),
             ts_PacketsPerSec = word_of_int (int (unat (p - d_lastTotalPackets d)) div n)\<rparr>])),
      d_lastStatsTime := now, d_lastTotalPackets := p, d_lastTotalBytes := b\<rparr>"
proof (cases "d_lastTotalPackets d = 0 \<and> 0 < p")
  case True
  then show ?thesis using updateThroughputHistory_first [OF assms(1,2)] by simp
next
  case False
  then have later: "d_lastTotalPackets d \<noteq> 0 \<or> p = 0" by (auto simp: word_gt_0)
  have n: "0 < n" using assms(1) by (simp add: elapsed_def)
  have "push_sample (d_throughputHistory d) s = lastn 60 (d_throughputHistory d @ [s])" for s
    using samples.add_contents [OF assms(5), of s] by (simp add: add_sample_def)
  then show ?thesis
    using updateThroughputHistory_samples [OF assms(1,2) later, of oob]
      rate_exact [OF assms(3) n] rate_exact [OF assms(4) n] unfolding if_not_P [OF False] by simp
qed

text \<open>
  C14: One failed reading of the kernel's counters makes a spike. \<open>KernelStats\<close> reports a failure as zero packets and zero
  bytes, from which the dashboard subtracts the remembered counter: if a whole number \<open>n\<close> of seconds, \<open>2 \<le> n < 2 ^ 33\<close>, has passed
  and the remembered counter is between 1 and \<open>2 ^ 63\<close>, a sample is appended to the history (of at most sixty), which shows at least \<open>2 ^ 62 div n\<close> packets per second,
  where the true rate may be nothing, and the remembered counter is zero afterwards.
\<close>

theorem failed_reading_spikes:
  assumes "elapsed n now d" and "2 \<le> n" and "d_lastTotalPackets d \<noteq> 0" and "unat (d_lastTotalPackets d) \<le> 2 ^ 63"
    and "length (d_throughputHistory d) \<le> 60"
  shows "\<exists>s. d_throughputHistory (updateThroughputHistory oob now (Some er) None d) =
       lastn 60 (d_throughputHistory d @ [s]) \<and> 2 ^ 62 div n \<le> uint (ts_PacketsPerSec s) \<and>
     d_lastTotalPackets (updateThroughputHistory oob now (Some er) None d) = 0"
proof -
  have read: "KernelStats er None = (0, 0)" by (simp add: KernelStats_def)
  let ?diff = "0 - d_lastTotalPackets d"
  let ?s = "\<lparr>ts_Timestamp = now, ts_BytesPerSec = rate oob (0 - d_lastTotalBytes d) n, ts_PacketsPerSec = rate oob ?diff n\<rparr>"
  have push: "push_sample (d_throughputHistory d) ?s = lastn 60 (d_throughputHistory d @ [?s])"
    using samples.add_contents [OF assms(5), of ?s] by (simp add: add_sample_def)
  have L: "0 < uint (d_lastTotalPackets d)"
    using assms(3) uint_0_iff [of "d_lastTotalPackets d"] uint_ge_0 [of "d_lastTotalPackets d"] by linarith
  have "int (unat (d_lastTotalPackets d)) \<le> int (2 ^ 63)" using assms(4) by (simp only: of_nat_le_iff)
  then have "uint (d_lastTotalPackets d) \<le> 2 ^ 63" by simp
  moreover have "uint ?diff = (- uint (d_lastTotalPackets d)) mod 2 ^ 64" by (simp add: uint_word_ariths(4))
  then have "uint ?diff = 2 ^ 64 - uint (d_lastTotalPackets d)"
    using L uint_lt2p [of "d_lastTotalPackets d"] by (simp add: zmod_zminus1_eq_if)
  moreover have "int (unat ?diff) = uint ?diff" by simp
  moreover have "(2 :: int) ^ 64 = 2 * 2 ^ 63" by simp
  ultimately have "2 ^ 63 \<le> int (unat ?diff)" "int (unat ?diff) < 2 ^ 64" using L by linarith+
  then have big: "2 ^ 63 \<le> unat ?diff" "unat ?diff < 2 ^ 64" by (simp_all only: flip: of_nat_less_iff [where 'a = int] of_nat_le_iff [where 'a = int]) simp_all
  define m where "m = unat ?diff"
  let ?x = "of_nat m :: rat"
  note big = big [folded m_def]
  have fl1: "2 ^ 63 \<le> fl ?x" "fl ?x \<le> 2 ^ 64"
  proof -
    have "of_int 1 * 2 powi int 63 \<le> fl ?x"
      by (rule representable_le_fl) (use big in \<open>simp_all add: powi_nat\<close>)
    then show "2 ^ 63 \<le> fl ?x" by (simp add: powi_nat)
    have "fl ?x \<le> of_int 1 * 2 powi int 64"
      by (rule fl_le_representable) (use big in \<open>simp_all add: powi_nat\<close>)
    then show "fl ?x \<le> 2 ^ 64" by (simp add: powi_nat)
  qed
  let ?y = "fl ?x / of_int n :: rat"
  have y: "2 ^ 63 / of_int n \<le> ?y" "?y \<le> 2 ^ 63" "0 < ?y"
  proof -
    show "2 ^ 63 / of_int n \<le> ?y" using fl1(1) assms(2) by (intro divide_right_mono) simp_all
    have "?y \<le> 2 ^ 64 / 2" using fl1 assms(2) by (intro frac_le) simp_all
    then show "?y \<le> 2 ^ 63" by simp
    show "0 < ?y" using fl1(1) assms(2) by (intro divide_pos_pos) simp_all
  qed
  have "?y / 2 ^ 53 \<le> ?y / 2" using y(3) by (intro divide_left_mono) simp_all
  then have "?y / 2 \<le> fl ?y" using fl_error [OF y(3)] by linarith
  moreover have "(2 ^ 62 / of_int n :: rat) \<le> ?y / 2" using y(1) by simp
  moreover have "(of_int (2 ^ 62 div n) :: rat) \<le> 2 ^ 62 / of_int n"
    using floor_divide_of_int_eq [where 'a = rat, of "2 ^ 62" n] by simp linarith
  ultimately have low: "of_int (2 ^ 62 div n) \<le> fl ?y" by linarith
  have "fl ?y \<le> of_int 1 * 2 powi int 63"
    by (rule fl_le_representable) (use y in \<open>simp_all add: powi_nat\<close>)
  then have high: "fl ?y \<le> 2 ^ 63" by (simp add: powi_nat)
  have "f_u64 ?diff = F64 (fl ?x)" by (simp only: f_u64_def m_def of_int_of_nat_eq)
  then have trunc: "f_trunc (f_div (f_u64 ?diff) (F64 (of_int n))) = \<lfloor>fl ?y\<rfloor>"
    using fl_nonneg [of ?y] y(3) by (simp add: f_trunc_def f_div_def)
  have "2 ^ 62 div n \<le> \<lfloor>fl ?y\<rfloor>" using low by (simp add: le_floor_iff)
  moreover have "\<lfloor>fl ?y\<rfloor> \<le> \<lfloor>2 ^ 63 :: rat\<rfloor>" using high by (rule floor_mono)
  then have "\<lfloor>fl ?y\<rfloor> \<le> 2 ^ 63" by simp
  moreover have "0 \<le> 2 ^ 62 div n" using assms(2) by (simp add: pos_imp_zdiv_nonneg_iff)
  moreover have "(2 :: int) ^ 63 < 2 ^ 64" by simp
  ultimately have range: "0 \<le> \<lfloor>fl ?y\<rfloor>" "\<lfloor>fl ?y\<rfloor> < 2 ^ 64" "2 ^ 62 div n \<le> \<lfloor>fl ?y\<rfloor>" by linarith+
  have "rate oob ?diff n = word_of_int \<lfloor>fl ?y\<rfloor>"
    using range(1,2) by (simp only: rate_def f_to_u64_def trunc Let_def if_True simp_thms)
  then have "uint (rate oob ?diff n) = \<lfloor>fl ?y\<rfloor>" using range(1,2) by (simp add: uint_word_of_int)
  then have "2 ^ 62 div n \<le> uint (rate oob ?diff n)" using range(3) by linarith
  then show ?thesis
    using updateThroughputHistory_samples [OF assms(1) read disjI1 [OF assms(3)], of oob] push
    by (intro exI [of _ ?s]) simp
qed

text \<open>A dashboard that last looked at time 0, when 1000 packets of 64 bytes had been counted.\<close>

definition counted :: Dashboard where
  "counted = (NewDashboard 0)\<lparr>d_lastTotalPackets := 1000, d_lastTotalBytes := 64000\<rparr>"

definition open_reader :: EventReader where
  "open_reader = \<lparr>er_objs = True, er_xdpLink = True, er_ringReader = True, er_eventsChan = [], er_stopClosed = False,
      er_iface = \<lparr>if_name = ''eth0'', if_index = 1, if_flags = 1\<rparr>, er_verbose = False,
      er_droppedInUserspace = 0, er_Status = \<lparr>sl_messages = [], sl_maxSize = 100\<rparr>\<rparr>"

lemma counted_fields: "d_throughputHistory counted = []" "d_lastTotalPackets counted = 1000" "d_lastTotalBytes counted = 64000"
  by (simp_all add: counted_def NewDashboard_def)

theorem throughput_sample_exact_witness:
  "map ts_PacketsPerSec (d_throughputHistory (updateThroughputHistory (\<lambda>_. 0) (3 * 10 ^ 9) (Some open_reader)
     (Some (1010, 64640)) counted)) = [3]"
proof -
  have "elapsed 3 (3 * 10 ^ 9) counted" by (simp add: elapsed_def counted_def NewDashboard_def)
  moreover have "KernelStats open_reader (Some (1010, 64640)) = (1010, 64640)"
    by (simp add: KernelStats_def open_reader_def)
  ultimately show ?thesis
    using throughput_sample_exact [of 3 "3 * 10 ^ 9" counted open_reader "Some (1010, 64640)" 1010 64640 "\<lambda>_. 0"]
    by (simp add: counted_def NewDashboard_def)
qed

theorem failed_reading_spikes_witness:
  "\<exists>s. d_throughputHistory (updateThroughputHistory (\<lambda>_. 0) (2 * 10 ^ 9) (Some open_reader) None counted) = [s] \<and>
     2 ^ 61 \<le> uint (ts_PacketsPerSec s)"
proof -
  have "elapsed 2 (2 * 10 ^ 9) counted" by (simp add: elapsed_def counted_def NewDashboard_def)
  then show ?thesis
    using failed_reading_spikes [of 2 "2 * 10 ^ 9" counted "\<lambda>_. 0" open_reader] by (auto simp: counted_fields)
qed

end
