(* ===== verification/FormatProps.thy ===== *)
theory FormatProps
  imports Format Xdp
begin

text \<open>
  What the text helpers print: byte counts and durations agree with integer arithmetic, in spite of the
  floating-point division, and the short form of an address.
\<close>

subsection \<open>Byte counts\<close>

text \<open>\<open>n\<close> divided by \<open>u\<close> in tenths, rounded to nearest, ties to even.\<close>

definition tenths :: "nat \<Rightarrow> nat \<Rightarrow> nat" where
  "tenths n u = (let q = 10 * n div u; r = 10 * n mod u in
     if 2 * r < u \<or> 2 * r = u \<and> even q then q else q + 1)"

definition human_bytes :: "nat \<Rightarrow> string" where
  "human_bytes n =
     (let scaled = (\<lambda>u name. dec (tenths n u div 10) @ CHR ''.'' # dec (tenths n u mod 10) @ name) in
      if n < 1024 then dec n @ ''B''
      else if n < 1024 ^ 2 then scaled 1024 ''KB''
      else if n < 1024 ^ 3 then scaled (1024 ^ 2) ''MB''
      else scaled (1024 ^ 3) ''GB'')"

lemma rne_div_tenths:
  assumes "0 < u"
  shows "rne (of_nat (10 * n) / of_nat u) = int (tenths n u)"
proof -
  let ?x = "of_nat (10 * n) / of_nat u :: rat"
  let ?q = "10 * n div u" and ?r = "10 * n mod u"
  have "(of_nat (10 * n) :: rat) = of_nat ?q * of_nat u + of_nat ?r"
    by (metis div_mult_mod_eq of_nat_add of_nat_mult)
  then have x: "?x = of_nat ?q + of_nat ?r / of_nat u" using assms by (simp add: field_simps)
  have r: "0 \<le> (of_nat ?r / of_nat u :: rat)" "(of_nat ?r / of_nat u :: rat) < 1" using assms by simp_all
  have fl: "\<lfloor>?x\<rfloor> = int ?q" unfolding x using r by (simp add: floor_eq_iff)
  have "2 * ?r < u \<longleftrightarrow> (of_nat (2 * ?r) :: rat) < of_nat u" "u < 2 * ?r \<longleftrightarrow> (of_nat u :: rat) < of_nat (2 * ?r)"
    by (simp_all only: of_nat_less_iff)
  then have half: "of_nat ?r / of_nat u < (1 / 2 :: rat) \<longleftrightarrow> 2 * ?r < u"
    "(1 / 2 :: rat) < of_nat ?r / of_nat u \<longleftrightarrow> u < 2 * ?r"
    using assms by (simp_all add: field_simps)
  have d: "?x - of_int (int ?q) = of_nat ?r / of_nat u" using x by simp
  show ?thesis
    unfolding rne_def Let_def fl d half tenths_def by auto
qed

lemma length_dec_digit: "n < 10 \<Longrightarrow> dec n = [digit n]"
  by (subst dec.simps) simp

lemma fixed_1:
  assumes "0 < u" and "rat_of x = of_nat n / of_nat u"
  shows "fixed 1 x = dec (tenths n u div 10) @ CHR ''.'' # dec (tenths n u mod 10)"
proof -
  have x: "\<bar>rat_of x\<bar> * 10 ^ 1 = of_nat (10 * n) / of_nat u" "\<not> rat_of x < 0"
    using assms by (simp_all add: not_less)
  have "pad_zeros 1 (dec (k mod 10)) = dec (k mod 10)" for k by (simp add: pad_zeros_def length_dec_digit)
  then show ?thesis
    unfolding fixed_def Let_def x(1) rne_div_tenths [OF assms(1)] using x(2) by simp
qed

lemma f_u64_exact: "unat w < 2 ^ 53 \<Longrightarrow> f_u64 w = F64 (of_nat (unat w))"
proof -
  assume "unat w < 2 ^ 53"
  then have "int (unat w) < int (2 ^ 53)" by (simp only: of_nat_less_iff)
  then show ?thesis using fl_of_int [of "int (unat w)"] by (simp add: f_u64_def)
qed

lemma f_div_power_of_two:
  assumes "unat b < 2 ^ 53" and "unat w = 2 ^ e" and "e < 53"
  shows "rat_of (f_div (f_u64 b) (f_u64 w)) = of_nat (unat b) / of_nat (2 ^ e)"
proof -
  have "unat w < 2 ^ 53" unfolding assms(2) using assms(3) by (intro power_strict_increasing) simp_all
  then have w: "f_u64 w = F64 (of_nat (unat w))" by (rule f_u64_exact)
  have "int (unat b) < int (2 ^ 53)" using assms(1) by (simp only: of_nat_less_iff)
  then have "fl (of_int (int (unat b)) * 2 powi - int e) = of_int (int (unat b)) * 2 powi - int e"
    by (intro fl_representable) simp_all
  then have "fl (of_nat (unat b) / of_nat (2 ^ e)) = (of_nat (unat b) / of_nat (2 ^ e) :: rat)"
    by (simp add: power_int_minus divide_inverse)
  then show ?thesis unfolding f_u64_exact [OF assms(1)] w f_div_def f64.sel assms(2) .
qed

lemma formatBytes_human:
  assumes "unat b < 2 ^ 53"
  shows "formatBytes b = human_bytes (unat b)"
proof -
  have units: "unat (1024 :: u64) = 2 ^ 10" "unat (1024 * 1024 :: u64) = 2 ^ 20" "unat (1024 * 1024 * 1024 :: u64) = 2 ^ 30"
    by simp_all
  have ge: "b \<ge> w \<longleftrightarrow> \<not> unat b < unat w" for w by (simp add: word_le_nat_alt not_less)
  have pow: "(1024 :: nat) = 2 ^ 10" "(1024 :: nat) ^ 2 = 2 ^ 20" "(1024 :: nat) ^ 3 = 2 ^ 30" by simp_all
  have shown: "fixed 1 (f_div (f_u64 b) (f_u64 w)) = dec (tenths (unat b) (2 ^ e) div 10) @ CHR ''.'' # dec (tenths (unat b) (2 ^ e) mod 10)"
    if "unat w = 2 ^ e" "e < 53" for w e
    by (rule fixed_1) (use f_div_power_of_two [OF assms that] in simp_all)
  show ?thesis
    unfolding formatBytes_def human_bytes_def Let_def ge units pow
    using shown [OF units(1)] shown [OF units(2)] shown [OF units(3)] by (simp add: dec_u64_def)
qed

text \<open>
  C18: Byte counts are printed right. Below \<open>2 ^ 53\<close> bytes the text is the count itself under 1024 bytes, and otherwise the number
  of kilobytes, megabytes or gigabytes with one decimal, correctly rounded (the float division is
  exact): \<open>formatBytes\<close> is integer arithmetic. Just below a unit the rounding carries, so that
  the last kilobyte before a megabyte is printed as 1024.0KB.
\<close>

theorem formatBytes_exact:
  assumes "unat b < 2 ^ 53"
  shows "formatBytes b = human_bytes (unat b) \<and>
    (1048525 \<le> unat b \<and> unat b < 1048576 \<longrightarrow> formatBytes b = ''1024.0KB'')"
proof (intro conjI impI)
  assume n: "1048525 \<le> unat b \<and> unat b < 1048576"
  define n where "n = unat b"
  have q: "10 * n div 1024 = 10239" using n by (simp add: n_def div_nat_eqI)
  have "10 * n mod 1024 = 10 * n - 1024 * (10 * n div 1024)" by (rule minus_mult_div_eq_mod [symmetric])
  also have "\<dots> > 512" unfolding q using n by (simp add: n_def less_diff_conv)
  finally have "tenths n 1024 = 10240" unfolding tenths_def Let_def q by simp
  then have "human_bytes n = ''1024.0KB''" using n by (simp add: human_bytes_def n_def printing)
  then show "formatBytes b = ''1024.0KB''" using formatBytes_human [OF assms] by (simp add: n_def)
qed (rule formatBytes_human [OF assms])

theorem formatBytes_exact_witness:
  "formatBytes 1536 = ''1.5KB'' \<and> formatBytes 1048575 = ''1024.0KB''"
proof -
  have "tenths 1536 1024 = 15" by (simp add: tenths_def)
  then have "human_bytes 1536 = ''1.5KB''" by (simp add: human_bytes_def printing)
  then show ?thesis using formatBytes_exact [of 1536] conjunct2 [OF formatBytes_exact [of 1048575]] by simp
qed

subsection \<open>Durations\<close>

text \<open>The whole part of a duration in a unit survives the rounding of the sum.\<close>

lemma trunc_in_units:
  assumes d: "0 \<le> d" and U: "0 < U" and small: "d + 3 * U < 2 ^ 53"
  shows "f_trunc (in_units U d) = d div U"
proof -
  define q r where "q = d div U" and "r = d mod U"
  have r: "0 \<le> r" "r < U" using U by (simp_all add: r_def)
  have "q * U + r = d" by (simp add: q_def r_def)
  then have q: "0 \<le> q" "q * U \<le> d" using d U r(1) by (simp_all add: q_def pos_imp_zdiv_nonneg_iff)
  have "q * 1 \<le> q * U" using q(1) U by (intro mult_left_mono) simp_all
  then have lim: "q < 2 ^ 53" "r < 2 ^ 53" "U < 2 ^ 53" using q r U small d by linarith+
  have sd: "d sdiv U = q" "d smod U = r"
    using d U by (simp_all add: signed_divide_int_def signed_modulo_int_def q_def r_def sgn_if minus_div_mult_eq_mod)
  let ?x = "of_int r / of_int U :: rat" and ?q = "of_int q :: rat"
  have x: "0 \<le> ?x" "?x \<le> 1 - 1 / of_int U"
  proof -
    show "0 \<le> ?x" using r U by simp
    have "(of_int r :: rat) \<le> of_int (U - 1)" using r by simp
    then show "?x \<le> 1 - 1 / of_int U" using U by (simp add: field_simps)
  qed
  let ?y = "fl ?x"
  have y: "0 \<le> ?y" "?y \<le> ?x + 1 / 2 ^ 53"
  proof -
    show "0 \<le> ?y" using x(1) by (rule fl_nonneg)
    have "0 \<le> (1 / of_int U :: rat)" using U by simp
    then have "?x \<le> 1" using x(2) by linarith
    then have "?x / 2 ^ 53 \<le> 1 / 2 ^ 53" by (rule divide_right_mono) simp
    moreover have "?y \<le> ?x + ?x / 2 ^ 53"
    proof (cases "?x = 0")
      case False
      then show ?thesis using fl_error [of ?x] x(1) unfolding abs_le_iff by linarith
    next
      case True
      then show ?thesis by (simp only: fl_0 div_0 add_0_right order_refl)
    qed
    ultimately show "?y \<le> ?x + 1 / 2 ^ 53" by linarith
  qed
  let ?s = "?q + ?y"
  have low: "?q \<le> fl ?s"
    using representable_le_fl [of q 0 ?s] q lim y by simp
  have high: "fl ?s < ?q + 1"
  proof (cases "?s = 0")
    case False
    have "0 \<le> ?q" using q by simp
    then have pos: "0 < ?s" using False y by linarith
    have "0 \<le> (1 / of_int U :: rat)" using U by simp
    moreover have "(1 :: rat) / 2 ^ 53 \<le> 1" by simp
    ultimately have "?s \<le> ?q + 2" using x y by linarith
    then have "?s / 2 ^ 53 \<le> (?q + 2) / 2 ^ 53" by (intro divide_right_mono) simp_all
    then have "fl ?s \<le> ?q + ?x + 1 / 2 ^ 53 + (?q + 2) / 2 ^ 53"
      using fl_error [OF pos] y unfolding abs_le_iff by linarith
    moreover have "(q + 3) * U < 2 ^ 53" using q small by (simp add: distrib_right)
    then have "(of_int ((q + 3) * U) :: rat) < of_int (2 ^ 53)" by (simp only: of_int_less_iff)
    then have "(?q + 3) / 2 ^ 53 < 1 / of_int U" using U by (simp add: field_simps)
    then have "1 / 2 ^ 53 + (?q + 2) / 2 ^ 53 < 1 / of_int U" by (simp add: add_divide_distrib)
    ultimately show ?thesis using x by linarith
  next
    case True
    then have "fl ?s = 0" by (simp only: fl_0)
    moreover have "0 \<le> ?q" using q by simp
    ultimately show ?thesis by linarith
  qed
  have "\<lfloor>fl ?s\<rfloor> = q" using low high by (simp add: floor_eq_iff)
  moreover have "0 \<le> fl ?s" using low q by linarith
  ultimately show ?thesis
    using q r lim U by (simp add: in_units_def f_add_def f_div_def f_int_def f_trunc_def sd fl_of_int q_def)
qed

text \<open>
  C19: Durations are printed right. For every duration of at most 2400 hours (100 days) the text shows the whole hours and the remaining whole
  minutes, or the minutes and remaining seconds when it is under an hour, or the seconds: the floating-point
  sums that \<open>Hours\<close>, \<open>Minutes\<close> and \<open>Seconds\<close> round never reach the next whole unit.
\<close>

theorem formatDuration_exact:
  assumes "0 \<le> d" and "d \<le> 2400 * 3600 * 10 ^ 9"
  shows "formatDuration d =
    (let s = d div 10 ^ 9 in
     if 3600 \<le> s then dec_int (s div 3600) @ ''h '' @ dec_int (s div 60 mod 60) @ ''m''
     else if 60 \<le> s then dec_int (s div 60) @ ''m '' @ dec_int (s mod 60) @ ''s''
     else dec_int s @ ''s'')"
proof -
  define s where "s = d div 10 ^ 9"
  have s: "0 \<le> s" using assms(1) by (simp add: s_def pos_imp_zdiv_nonneg_iff)
  have unit: "d div (k * 10 ^ 9) = s div k" if "0 \<le> k" for k
    unfolding s_def by (subst mult.commute, rule zdiv_zmult2_eq [OF that])
  have "f_trunc (Seconds d) = s" unfolding Seconds_in_units s_def using assms by (intro trunc_in_units) simp_all
  moreover have "f_trunc (Minutes d) = s div 60"
    unfolding Minutes_def using unit [of 60] assms trunc_in_units [of d "60 * 10 ^ 9"] by simp
  moreover have "f_trunc (Hours d) = s div 3600"
    unfolding Hours_def using unit [of 3600] assms trunc_in_units [of d "3600 * 10 ^ 9"] by simp
  moreover have "x smod 60 = x mod 60" if "0 \<le> x" for x :: int using that by (simp add: signed_modulo_int_def signed_divide_int_def sgn_if minus_div_mult_eq_mod)
  moreover have "s div 60 mod 60 = s div 60" if "s < 3600" using that s by simp
  ultimately show ?thesis
    using s unfolding formatDuration_def Let_def s_def [symmetric]
    by (auto simp: pos_imp_zdiv_pos_iff pos_imp_zdiv_nonneg_iff)
qed

theorem formatDuration_exact_witness:
  "formatDuration (3725 * 10 ^ 9 + 1) = ''1h 2m''"
  using formatDuration_exact [of "3725 * 10 ^ 9 + 1"] by (simp add: dec_int_def printing)

end
