(* ===== verification/ViewResults.thy ===== *)
theory ViewResults
  imports DashboardResults FormatProps
begin

text \<open>What the screens show: the visible window of the main view, the flows table, the ranked widgets, the protocol
  shares; and the terminals on which drawing panics.\<close>

subsection \<open>The window of the main view\<close>

lemma mainScroll_updateThroughputHistory [simp]:
  "d_mainScroll (updateThroughputHistory oob now reader lookup d) = d_mainScroll d"
  by (simp add: updateThroughputHistory_def Let_def split: option.split prod.split)

text \<open>What drawing the main view changes: the throughput history and the scroll position of the table.\<close>

definition page_drawn :: "screen \<Rightarrow> Dashboard \<Rightarrow> Dashboard" where
  "page_drawn v d = (let t = updateThroughputHistory (v_oob v) (v_now v) (v_reader v) (v_lookup v) d in
     t\<lparr>d_tableScroll := (if d_flows t = [] then d_tableScroll t else window_start t)\<rparr>)"

lemma renderFlowsTable_state:
  assumes "renderFlowsTable v st d = Inr (d', s)"
  shows "d' = d\<lparr>d_tableScroll := (if d_flows d = [] then d_tableScroll d else window_start d)\<rparr>"
proof (cases "d_flows d = []")
  case True
  then have "d' = d" using assms by (simp add: renderFlowsTable_def Let_def)
  then show ?thesis using True by simp
next
  case False
  then show ?thesis using assms renderFlowsTable_ok [OF False, of v st] by simp
qed

lemma main_lines_state:
  assumes "main_lines v st d = Inr (d', ls)"
  shows "d' = page_drawn v d"
  using assms by (auto simp: main_lines_def page_drawn_def Let_def gbind_Inr_iff dest!: renderFlowsTable_state)

lemma main_lines_scroll:
  assumes "main_lines v st d = Inr (d', ls)"
  shows "d_mainScroll d' = d_mainScroll d"
  by (simp add: main_lines_state [OF assms] page_drawn_def Let_def)

lemma length_view_window: "0 \<le> rows \<Longrightarrow> 0 \<le> scroll \<Longrightarrow> length (view_window scroll rows ls) = min (nat rows) (length ls)"
  by (simp add: view_window_def clamp_scroll_def Let_def) arith

text \<open>
  C8: The main view is a window of the page. On a terminal of at least eight columns, with no negative position, it is drawn without a panic: the throughput history is
  brought up to date (which adds a sample only when one is due), the lines of the page are put together, the table's scroll position is clamped, and exactly as many of them as the
  terminal has rows (at least ten) are shown, without a gap, from the scroll position down; scrolling
  past the end is undone, so that the window is always full when the page is long enough.
\<close>

theorem view_is_a_full_window:
  assumes "in_main_view d" and "positions_ok d" and "8 \<le> d_width d"
  shows "\<exists>d1 ls. main_lines v st d = Inr (d1, ls) \<and>
    d1 = (let t = updateThroughputHistory (v_oob v) (v_now v) (v_reader v) (v_lookup v) d in
      t\<lparr>d_tableScroll := (if d_flows t = [] then d_tableScroll t else window_start t)\<rparr>) \<and>
    View v st d = Inr (d1\<lparr>d_mainScroll := clamp_scroll (d_mainScroll d) (int (length ls)) (max 10 (d_height d))\<rparr>,
      join_lines v (view_window (d_mainScroll d) (max 10 (d_height d)) ls)) \<and>
    length (view_window (d_mainScroll d) (max 10 (d_height d)) ls) = min (nat (max 10 (d_height d))) (length ls) \<and>
    (\<exists>above below. ls = above @ view_window (d_mainScroll d) (max 10 (d_height d)) ls @ below \<and>
       int (length above) = clamp_scroll (d_mainScroll d) (int (length ls)) (max 10 (d_height d)))"
proof -
  obtain d1 ls where l: "main_lines v st d = Inr (d1, ls)" "drawn d d1" using main_lines_ok [OF assms(3)] by blast
  have pos: "0 \<le> d_mainScroll d" using assms(2) by (simp add: positions_ok_def)
  have same: "d_mainScroll d1 = d_mainScroll d" by (rule main_lines_scroll [OF l(1)])
  have "static d1 = static d" using l(2) by (simp add: drawn_def)
  then have height: "d_height d1 = d_height d" by (rule staticD(2))
  let ?rows = "max 10 (d_height d)"
  let ?c = "clamp_scroll (d_mainScroll d) (int (length ls)) ?rows"
  have c: "0 \<le> ?c" "?c \<le> int (length ls)"
    by (rule clamp_scroll_bounds(1) [OF pos], rule clamp_scroll_bounds(2)) simp_all
  have "ls = take (nat ?c) ls @ view_window (d_mainScroll d) ?rows ls @ drop (nat ?rows) (drop (nat ?c) ls)"
    by (simp only: view_window_def append_take_drop_id)
  moreover have "int (length (take (nat ?c) ls)) = ?c" using c by simp
  moreover have "length (view_window (d_mainScroll d) ?rows ls) = min (nat ?rows) (length ls)"
    by (rule length_view_window) (use pos in simp_all)
  ultimately show ?thesis
    using View_main [OF assms(1) l(1)] l(1) main_lines_state [OF l(1), unfolded page_drawn_def] pos
    unfolding same height by blast
qed

definition wide_dashboard :: Dashboard where
  "wide_dashboard = (NewDashboard 0)\<lparr>d_width := 80, d_height := 24\<rparr>"

lemma wide_dashboard_ok: "in_main_view wide_dashboard" "positions_ok wide_dashboard" "d_width wide_dashboard = 80"
  "d_height wide_dashboard = 24"
  by (simp_all add: in_main_view_def positions_ok_def wide_dashboard_def NewDashboard_def)

theorem view_is_a_full_window_witness:
  "\<exists>d1 ls. main_lines plain_screen empty_store wide_dashboard = Inr (d1, ls) \<and>
     length (view_window (d_mainScroll wide_dashboard) 24 ls) = min 24 (length ls)"
  using view_is_a_full_window [OF wide_dashboard_ok(1,2), of plain_screen empty_store] wide_dashboard_ok(3,4) by auto

subsection \<open>Terminals that are too small\<close>

lemma narrow_half_width: "d_width d < 8 \<Longrightarrow> half_width d + 2 < 0"
  by (simp add: half_width_def signed_divide_int_def sgn_if) arith

lemma narrow_talkers_panic:
  assumes "d_width d < 8" and "slice_sort (v_sort_flows v)" and "d_allFlows d \<noteq> []"
  shows "renderTopTalkers v st d = Inl SliceOutOfRange"
proof -
  let ?sorted = "v_sort_flows v (\<lambda>i j. flow_ByteCount (flow_at st i) > flow_ByteCount (flow_at st j)) (d_allFlows d)"
  have "length ?sorted \<noteq> 0" using assms(3) by (simp add: slice_sort.length_sorted [OF assms(2)])
  then obtain r rs n where "?sorted = r # rs" "top_count ?sorted = Suc n"
    by (cases ?sorted; cases "top_count ?sorted") (simp_all add: top_count_def split: if_splits)
  then have "ranked_lines (talker_text st) (half_width d) ?sorted 0 (top_count ?sorted) = Inl SliceOutOfRange"
    "top_count ?sorted \<noteq> 0"
    using cut_line_panics [OF narrow_half_width [OF assms(1)]] by (simp_all add: gindex_def)
  then show ?thesis by (simp add: renderTopTalkers_def Let_def)
qed

lemma narrow_main_view_panics:
  assumes "d_width d < 8" and "slice_sort (v_sort_flows v)" and "d_allFlows d \<noteq> []" and "in_main_view d"
  shows "View v st d = Inl SliceOutOfRange"
proof -
  let ?d1 = "updateThroughputHistory (v_oob v) (v_now v) (v_reader v) (v_lookup v) d"
  have "static ?d1 = static d" using drawn_updateThroughputHistory by (simp add: drawn_def)
  from staticD(1,4) [OF this] have same: "d_width ?d1 = d_width d" "d_allFlows ?d1 = d_allFlows d" .
  obtain spark where spark: "renderTrafficSparkline v ?d1 = Inr spark" using renderTrafficSparkline_ok by blast
  obtain scroll table where table: "renderFlowsTable v st ?d1 = Inr (?d1\<lparr>d_tableScroll := scroll\<rparr>, table)"
    using renderFlowsTable_result by blast
  have "renderTopTalkers v st (?d1\<lparr>d_tableScroll := scroll\<rparr>) = Inl SliceOutOfRange"
    by (rule narrow_talkers_panic) (use assms same in simp_all)
  then have "main_lines v st d = Inl SliceOutOfRange"
    unfolding main_lines_def Let_def spark gbind_simps table split_conv by simp
  then show ?thesis using assms(4) by (auto simp: View_def in_main_view_def)
qed

lemma low_drill_down_panics:
  assumes "d_height d < 3" and "0 \<le> d_drillFlowIdx d" and "d_drillFlowIdx d < int (length (d_frozenFlows d))"
  shows "renderDrillDown v st d = Inl SliceOutOfRange"
proof -
  obtain dns where "drill_dns v (flow_at st (d_frozenFlows d ! nat (d_drillFlowIdx d))) = Inr dns" using drill_dns_ok by blast
  then show ?thesis
    using assms by (simp add: renderDrillDown_def Let_def cut_lines_panics)
qed

text \<open>
  C15: A small terminal makes drawing panic. In the main view, fewer than eight columns and at least one flow make the slice
  expression that cuts a line of the top talkers go out of range; in the drill-down view, fewer than three rows do so for the
  details of the flow.
\<close>

theorem tiny_terminal_panics:
  assumes "slice_sort (v_sort_flows v)" and "positions_ok d"
    and "d_width d \<noteq> 0" and "\<not> d_helpMode d" and "\<not> d_filterMode d"
    and "d_width d < 8 \<and> d_allFlows d \<noteq> [] \<and> \<not> d_drillMode d \<or>
      d_height d < 3 \<and> d_drillMode d \<and> d_drillFlowIdx d < int (length (d_flows d))"
  shows "View v st d = Inl SliceOutOfRange"
proof (cases "d_drillMode d")
  case False
  then have "in_main_view d" "d_width d < 8" "d_allFlows d \<noteq> []" using assms(3-6) by (simp_all add: in_main_view_def)
  then show ?thesis using assms(1) by (intro narrow_main_view_panics)
next
  case True
  then have "0 \<le> d_drillFlowIdx d" "d_drillFlowIdx d < int (length (d_frozenFlows d))"
    using assms(2) by (simp_all add: positions_ok_def)
  moreover have "d_height d < 3" "d_drillFlowIdx d < int (length (d_flows d))" using True assms(6) by simp_all
  ultimately show ?thesis using low_drill_down_panics True assms(3-5) by (simp add: View_def)
qed

text \<open>Six columns and one flow.\<close>

theorem tiny_terminal_panics_witness:
  "View plain_screen empty_store ((NewDashboard 0)\<lparr>d_width := 6, d_height := 24, d_allFlows := [0]\<rparr>) = Inl SliceOutOfRange"
  by (rule tiny_terminal_panics)
    (simp_all add: plain_screen_def go_sort_slice_sort positions_ok_def NewDashboard_def)

subsection \<open>The flows table\<close>

text \<open>
  C9: The flows table is an honest window. The table has one row for each flow from the scroll position down, as many as fit; with the
  numbers of flows above and below, which it prints when there are any, all flows are accounted for. When a
  selection is in the window of the table and there are at most 200 flows, exactly its row carries the mark.
  Later flows are never drawn: past the two hundredth a selection cannot be seen.
\<close>

theorem table_is_an_honest_window:
  assumes "d_flows d \<noteq> []"
  shows "renderFlowsTable v st d = Inr (d\<lparr>d_tableScroll := window_start d\<rparr>,
      join_lines v (table_head v @ window_rows st d @
        hidden_row v (window_start d) (int (length (d_flows d)) - window_end d) @ table_foot v)) \<and>
    int (length (window_rows st d)) \<le> table_rows (d_height d) \<and>
    window_start d + int (length (window_rows st d)) + (int (length (d_flows d)) - window_end d) = int (length (d_flows d)) \<and>
    (\<forall>k < length (window_rows st d).
       window_rows st d ! k = flow_row st (d_flows d ! (nat (window_start d) + k)) (window_start d + int k = d_selectedFlow d)) \<and>
    (in_window d \<and> 0 \<le> d_tableScroll d \<and> length (d_flows d) \<le> 200 \<longrightarrow>
       window_start d \<le> d_selectedFlow d \<and> d_selectedFlow d < window_start d + int (length (window_rows st d))) \<and>
    window_end d \<le> 200"
proof -
  note w = window_bounds [of d]
  have len: "int (length (window_rows st d)) = window_end d - window_start d"
    using w(2) by (simp add: window_rows_def)
  have "window_rows st d ! k = flow_row st (d_flows d ! (nat (window_start d) + k)) (window_start d + int k = d_selectedFlow d)"
    if "k < length (window_rows st d)" for k
  proof -
    have "window_start d + int k \<le> window_end d - 1" using that len by linarith
    then have "[window_start d..window_end d - 1] ! k = window_start d + int k" by (rule nth_upto)
    moreover have "k < length [window_start d..window_end d - 1]" using that by (simp add: window_rows_def)
    ultimately show ?thesis using w(1) by (simp add: window_rows_def nat_add_distrib)
  qed
  moreover have "window_end d \<le> 200" by (simp add: window_end_def)
  moreover have "window_start d \<le> d_selectedFlow d" "d_selectedFlow d < window_start d + int (length (window_rows st d))"
    if "in_window d" "0 \<le> d_tableScroll d" "length (d_flows d) \<le> 200"
    using window_holds_selection [OF that assms] unfolding len by simp_all
  ultimately show ?thesis using renderFlowsTable_ok [OF assms] w len by auto
qed

theorem table_is_an_honest_window_witness:
  "window_end ((NewDashboard 0)\<lparr>d_flows := [0], d_height := 24\<rparr>) \<le> 200 \<and>
   (\<exists>text. renderFlowsTable plain_screen empty_store ((NewDashboard 0)\<lparr>d_flows := [0], d_height := 24\<rparr>) =
     Inr ((NewDashboard 0)\<lparr>d_flows := [0], d_height := 24, d_tableScroll := 0\<rparr>, text))"
proof -
  let ?d = "(NewDashboard 0)\<lparr>d_flows := [0], d_height := 24\<rparr>"
  have start: "window_start ?d = 0" by (simp add: window_start_def clamp_table_scroll_def table_rows_def NewDashboard_def)
  show ?thesis using table_is_an_honest_window [of ?d plain_screen empty_store] unfolding start by auto
qed

end
