(* ===== verification/WidgetResults.thy ===== *)
theory WidgetResults
  imports ViewResults
begin

text \<open>What the widgets count and rank: protocol shares, top talkers, and the short form of addresses.\<close>

subsection \<open>Protocol shares\<close>

lemma map_get_foldl_add:
  fixes val :: "'a \<Rightarrow> 'v::comm_monoid_add"
  shows "map_get (foldl (\<lambda>m x. gmap_add m (key x) (val x)) m xs) k =
    map_get m k + sum_list (map val (filter (\<lambda>x. key x = k) xs))"
  by (induction xs arbitrary: m) (auto simp: map_get_add add.assoc)

lemma foldl_add_totals:
  fixes val :: "'a \<Rightarrow> 'v::comm_monoid_add"
  assumes "wf_map m"
  shows "wf_map (foldl (\<lambda>m x. gmap_add m (key x) (val x)) m xs) \<and>
    sum_list (map snd (foldl (\<lambda>m x. gmap_add m (key x) (val x)) m xs)) = sum_list (map snd m) + sum_list (map val xs)"
  using assms
proof (induction xs arbitrary: m)
  case (Cons x xs)
  then have "wf_map (gmap_add m (key x) (val x))" by simp
  from Cons.IH [OF this] show ?case using sum_list_map_add [OF Cons.prems] by (simp add: add.assoc)
qed simp

text \<open>The search for the largest count.\<close>

lemma top_proto_fold:
  assumes "foldl (\<lambda>(top, most) (proto, n). if n > most then (proto, n) else (top, most)) (t0, n0 :: u64) m = (t, n)"
  shows "n0 \<le> n \<and> (\<forall>e \<in> set m. snd e \<le> n) \<and> ((t, n) = (t0, n0) \<or> (t, n) \<in> set m)"
  using assms
proof (induction m arbitrary: t0 n0)
  case (Cons e m)
  obtain p c where e: "e = (p, c)" by (cases e)
  show ?case
  proof (cases "c > n0")
    case True
    with Cons.prems Cons.IH [of p c] have ih: "c \<le> n \<and> (\<forall>e \<in> set m. snd e \<le> n) \<and> ((t, n) = (p, c) \<or> (t, n) \<in> set m)"
      by (simp add: e)
    have "n0 \<le> c" using True by simp
    then have "n0 \<le> n" using conjunct1 [OF ih] by (rule order.trans)
    with ih show ?thesis by (auto simp: e)
  next
    case False
    with Cons.prems Cons.IH [of t0 n0] show ?thesis by (auto simp: e)
  qed
qed simp

text \<open>
  C17: The protocol counts account for every packet. The count of a protocol is the sum of the packet counts of its flows, the counts add up
  to the total that percentages are taken of, and, in whatever order the map is visited, the top protocol
  is one with the largest count (all in 64-bit arithmetic).
\<close>

theorem protocol_counts_account:
  assumes "range_order visit"
  shows "map_get (proto_counts st rs) p =
      sum_list (map (\<lambda>r. flow_PacketCount (flow_at st r)) (filter (\<lambda>r. flow_Protocol (flow_at st r) = p) rs)) \<and>
    sum_list (map snd (proto_counts st rs)) = foldl (\<lambda>t r. t + flow_PacketCount (flow_at st r)) 0 rs \<and>
    map_get (proto_counts st rs) p \<le> snd (top_proto (visit (proto_counts st rs))) \<and>
    (snd (top_proto (visit (proto_counts st rs))) \<noteq> 0 \<longrightarrow>
       map_get (proto_counts st rs) (fst (top_proto (visit (proto_counts st rs)))) =
       snd (top_proto (visit (proto_counts st rs))))"
proof -
  let ?m = "proto_counts st rs"
  note totals = foldl_add_totals [OF wf_map_Nil, of "\<lambda>r. flow_Protocol (flow_at st r)" "\<lambda>r. flow_PacketCount (flow_at st r)" rs]
  then have wf: "distinct (map fst ?m)" by (simp add: proto_counts_def wf_map_def)
  have sum: "foldl (\<lambda>t r. t + flow_PacketCount (flow_at st r)) x rs = x + sum_list (map (\<lambda>r. flow_PacketCount (flow_at st r)) rs)" for x
    by (induction rs arbitrary: x) (simp_all add: add.assoc)
  obtain t n where top: "top_proto (visit ?m) = (t, n)" by fastforce
  then have best: "\<forall>e \<in> set ?m. snd e \<le> n" "(t, n) = ('''', 0) \<or> (t, n) \<in> set ?m"
    using top_proto_fold [of "''''" 0 "visit ?m" t n] assms by (simp_all add: top_proto_def)
  have "map_get ?m q \<le> n" for q
  proof (cases "map_of ?m q")
    case (Some c)
    then show ?thesis using best(1) by (force simp: map_get_def dest: map_of_SomeD)
  qed (simp add: map_get_def)
  moreover have "map_get ?m t = n" if "n \<noteq> 0"
    using best(2) that map_of_is_SomeI [OF wf] by (auto simp: map_get_def)
  ultimately show ?thesis
    unfolding top fst_conv snd_conv using totals sum [of 0] map_get_foldl_add [of _ _ "[]" rs p]
    by (simp add: proto_counts_def)
qed

text \<open>Two TCP flows, of 10 and 20 packets and as many bytes.\<close>

definition two_talkers :: store where
  "two_talkers = \<lparr>st_flows = map (\<lambda>n. (new_flow 0 (packet 1 2 0 0 6 0) 0)\<lparr>flow_ByteCount := n, flow_PacketCount := n\<rparr>) [10, 20], st_rings = []\<rparr>"

theorem protocol_counts_account_witness:
  "map_get (proto_counts two_talkers [0, 1]) ''tcp'' = 30 \<and> 30 \<le> snd (top_proto (rev (proto_counts two_talkers [0, 1])))"
proof -
  have sum: "sum_list (map (\<lambda>r. flow_PacketCount (flow_at two_talkers r))
      (filter (\<lambda>r. flow_Protocol (flow_at two_talkers r) = ''tcp'') [0, 1])) = 30"
    by (simp add: two_talkers_def flow_at_def new_flow_def packet_def ProtocolName_def)
  note all = protocol_counts_account [OF range_order_rev, of two_talkers "[0, 1]" "''tcp''", unfolded sum]
  have "map_get (proto_counts two_talkers [0, 1]) ''tcp'' = 30" using all by (elim conjE)
  moreover have "map_get (proto_counts two_talkers [0, 1]) ''tcp'' \<le> snd (top_proto (rev (proto_counts two_talkers [0, 1])))"
    using all by (elim conjE)
  ultimately show ?thesis by (simp only: simp_thms)
qed

subsection \<open>Top talkers\<close>

lemma sorted_wrt_take_drop:
  assumes "sorted_wrt R xs" and "x \<in> set (take n xs)" and "y \<in> set (drop n xs)"
  shows "R x y"
proof -
  have "sorted_wrt R (take n xs @ drop n xs)" using assms(1) by simp
  then show ?thesis using assms(2,3) unfolding sorted_wrt_append by blast
qed

text \<open>
  C16: The top talkers are the largest flows. On a terminal of at least eight columns the widget is drawn without a panic and lists, numbered and in
  descending order of bytes, the flows of a sorted permutation of all flows, at most five of them, each cut to the width of the
  widget; no flow that is left out has more bytes than one that is listed.
\<close>

theorem top_talkers_are_largest:
  assumes "8 \<le> d_width d" and "slice_sort (v_sort_flows v)"
  shows "\<exists>sorted. mset sorted = mset (d_allFlows d) \<and>
    sorted_wrt (\<lambda>i j. flow_ByteCount (flow_at st j) \<le> flow_ByteCount (flow_at st i)) sorted \<and>
    renderTopTalkers v st d = Inr (join_lines v
      ([box_tl @ box_h @ '' TOP TALKERS '' @ repeatStr box_h (half_width d - 14) @ box_tr] @
       ranked_rows (box_v @ '' No flows                 '' @ box_v) (talker_text st) (half_width d) sorted @
       [box_bl @ repeatStr box_h (half_width d - 2) @ box_br])) \<and>
    (\<forall>i \<in> set (take 5 sorted). \<forall>j \<in> set (drop 5 sorted). flow_ByteCount (flow_at st j) \<le> flow_ByteCount (flow_at st i))"
proof -
  let ?lt = "\<lambda>i j. flow_ByteCount (flow_at st i) > flow_ByteCount (flow_at st j)"
  let ?sorted = "v_sort_flows v ?lt (d_allFlows d)"
  have "?lt = (\<lambda>i j. uint (flow_ByteCount (flow_at st j)) < uint (flow_ByteCount (flow_at st i)))"
    by (simp add: word_less_def)
  from slice_sort.descending [OF assms(2) this]
  have sorted: "sorted_wrt (\<lambda>i j. flow_ByteCount (flow_at st j) \<le> flow_ByteCount (flow_at st i)) ?sorted"
    by (simp add: word_le_def)
  then have "\<forall>i \<in> set (take 5 ?sorted). \<forall>j \<in> set (drop 5 ?sorted). flow_ByteCount (flow_at st j) \<le> flow_ByteCount (flow_at st i)"
    using sorted_wrt_take_drop [OF sorted] by blast
  moreover have "mset ?sorted = mset (d_allFlows d)" by (rule slice_sort.permutes [OF assms(2)])
  moreover have "renderTopTalkers v st d = Inr (join_lines v
      ([box_tl @ box_h @ '' TOP TALKERS '' @ repeatStr box_h (half_width d - 14) @ box_tr] @
       ranked_rows (box_v @ '' No flows                 '' @ box_v) (talker_text st) (half_width d) ?sorted @
       [box_bl @ repeatStr box_h (half_width d - 2) @ box_br]))"
    unfolding renderTopTalkers_def Let_def by (simp only: ranked_rows_ok [OF half_width_wide [OF assms(1)]] gbind_simps)
  ultimately show ?thesis using sorted by blast
qed

theorem top_talkers_are_largest_witness:
  "\<exists>top bottom. renderTopTalkers plain_screen two_talkers (wide_dashboard\<lparr>d_allFlows := [0, 1]\<rparr>) =
     Inr (join_lines plain_screen (top @ map (\<lambda>j. ranked_line (talker_text two_talkers) 34 (j, [1, 0] ! j)) [0..<2] @ bottom))"
proof -
  let ?d = "wide_dashboard\<lparr>d_allFlows := [0, 1]\<rparr>"
  have width: "8 \<le> d_width ?d" "half_width ?d = 34" by (simp_all add: wide_dashboard_def half_width_def signed_divide_int_def)
  have sort: "slice_sort (v_sort_flows plain_screen)" by (simp add: plain_screen_def go_sort_slice_sort)
  from top_talkers_are_largest [OF width(1) sort, of two_talkers] obtain sorted where
    perm: "mset sorted = mset (d_allFlows ?d)" and
    desc: "sorted_wrt (\<lambda>i j. flow_ByteCount (flow_at two_talkers j) \<le> flow_ByteCount (flow_at two_talkers i)) sorted" and
    out: "\<exists>top none bottom. renderTopTalkers plain_screen two_talkers ?d = Inr (join_lines plain_screen
       (top @ ranked_rows none (talker_text two_talkers) (half_width ?d) sorted @ bottom))" by blast
  have "length sorted = 2" using mset_eq_length [OF perm] by simp
  then obtain a b where ab: "sorted = [a, b]" by (auto simp: numeral_2_eq_2 length_Suc_conv)
  then have "{#a, b#} = {#0, 1#}" using perm by simp
  then have "a = 0 \<and> b = 1 \<or> a = 1 \<and> b = 0" by (auto simp: add_eq_conv_ex)
  then have "sorted = [1, 0]" using desc by (auto simp: ab flow_at_def two_talkers_def)
  with out show ?thesis unfolding width(2) by (simp add: ranked_rows_def upt_rec)
qed

subsection \<open>Short addresses\<close>

lemma last_dot_none: "n \<le> length s \<Longrightarrow> \<forall>i < n. s ! i \<noteq> CHR ''.'' \<Longrightarrow> last_dot s n = - 1"
  by (induction n) simp_all

lemma last_dot_append:
  assumes "CHR ''.'' \<notin> set ys"
  shows "last_dot (xs @ CHR ''.'' # ys) (length xs + 1 + length ys) = int (length xs)"
proof -
  have "last_dot (xs @ CHR ''.'' # ys) (length xs + 1 + n) = int (length xs)" if "n \<le> length ys" for n
    using that
  proof (induction n)
    case (Suc n)
    then have "ys ! n \<noteq> CHR ''.''" using assms nth_mem [of n ys] by force
    with Suc show ?case by (simp add: nth_append)
  qed (simp add: nth_append)
  then show ?thesis by simp
qed

lemma after_last_dot:
  assumes "CHR ''.'' \<notin> set ys" and "parts = xs @ CHR ''.'' # ys"
  shows "(let lastDot = last_dot parts (length parts) in if lastDot \<ge> 0 then drop (nat (lastDot + 1)) parts else parts) = ys"
  using last_dot_append [OF assms(1), of xs] by (simp add: assms(2) nat_add_distrib)

lemma shortIP_v4: "shortIP (IPFromUint32 ip) = dec (unat (ucast ip :: u8))"
proof -
  have v4: "IPFromUint32 ip = Some (the (IPFromUint32 ip))" by (simp add: IPFromUint32_def net_IPv4_def)
  have "IP_String (IPFromUint32 ip) = (dec (unat (ucast (drop_bit 24 ip) :: u8)) @ CHR ''.'' # dec (unat (ucast (drop_bit 16 ip) :: u8)) @
      CHR ''.'' # dec (unat (ucast (drop_bit 8 ip) :: u8))) @ CHR ''.'' # dec (unat (ucast ip :: u8))"
    using ip_text_dotted [of ip] by (simp add: ip_text_def dotted_4)
  from after_last_dot [OF sep_notin_dec(1) this] show ?thesis
    unfolding shortIP_def by (subst v4) (simp add: Let_def)
qed

text \<open>
  The labels of the talkers show the network, not the host: the label is meant to be the last octet of an address; because addresses are reversed on the way in, what it
  shows for a captured packet is the first octet of the address on the wire, which all hosts of a network share.
\<close>

theorem short_address_is_network_octet:
  assumes "capturable (md_frame ctx)" and "env_ringbuf_reserve env"
  shows "\<exists>stats' r evt. xdp_probe_func ctx env stats = Inr (XDP_PASS, stats', Some r) \<and>
      parsePacketEvent (sample_bytes padding r) = Inr evt \<and>
      shortIP (IPFromUint32 (evt_Saddr evt)) = dec (unat (md_frame ctx ! 26)) \<and>
      shortIP (IPFromUint32 (evt_Daddr evt)) = dec (unat (md_frame ctx ! 30))"
proof -
  have len: "34 \<le> length (md_frame ctx)" using assms(1) by (simp add: capturable_def)
  have byte: "ucast (le_word (take 4 (drop k (md_frame ctx))) :: u32) = md_frame ctx ! k" if "k \<le> 30" for k
    using le_word_byte [of 0 "take 4 (drop k (md_frame ctx))", where 'a = 32] len that by simp
  show ?thesis
    using assms parsePacketEvent_encode [of "captured_event ctx env" padding]
    by (simp add: xdp_probe_func_result sample_bytes_def shortIP_v4 byte captured_event_def Let_def)
qed

text \<open>From 192.168.1.10 to 8.8.8.8 the label of the source is 192.\<close>

theorem short_address_is_network_octet_witness:
  "\<exists>stats' r evt. xdp_probe_func \<lparr>md_frame = example_frame, md_rx_queue_index = 0\<rparr>
        \<lparr>env_map_elem = False, env_ringbuf_reserve = True, env_ktime_ns = 5, env_cpu_id = 1\<rparr>
        \<lparr>ks_packets = 0, ks_bytes = 0\<rparr> = Inr (XDP_PASS, stats', Some r) \<and>
      parsePacketEvent (sample_bytes [0, 0, 0, 0] r) = Inr evt \<and>
      shortIP (IPFromUint32 (evt_Saddr evt)) = ''192''"
proof -
  have "capturable example_frame" by (simp add: capturable_def ip_header_len_def example_frame_eq)
  moreover have "dec (unat (example_frame ! 26)) = ''192''" by (simp add: example_frame_eq printing)
  ultimately show ?thesis
    using short_address_is_network_octet [of "\<lparr>md_frame = example_frame, md_rx_queue_index = 0\<rparr>"
        "\<lparr>env_map_elem = False, env_ringbuf_reserve = True, env_ktime_ns = 5, env_cpu_id = 1\<rparr>"
        "\<lparr>ks_packets = 0, ks_bytes = 0\<rparr>" "[0, 0, 0, 0]"] by auto
qed

end
