(* ===== verification/Spec2Isabelle.thy ===== *)
theory Spec2Isabelle
  imports Xdp Startup RefreshSteps Throughput WidgetResults
begin

text \<open>
  A verification development for JOPIL (\<^verbatim>\<open>github.com/mukesh/jopil\<close>), a monitor of network traffic: an XDP program
  in the kernel reports every IPv4 packet, a Go program groups the packets into conversations
  and shows them on a terminal.

  \<^bold>\<open>How the program works.\<close> The XDP program (\<^verbatim>\<open>bpf/packet.c\<close>) writes one event for each IPv4 frame into a kernel ring
  buffer. The event reader (\<^verbatim>\<open>internal/monitor/monitor.go\<close>) decodes the events and sends them into a channel of bounded
  capacity, dropping those that do not fit. The flow aggregator (\<^verbatim>\<open>internal/monitor/aggregator.go\<close>) takes them from the
  channel and keeps one flow for each unordered pair of addresses and protocol
  (\<^verbatim>\<open>internal/model/packet.go\<close>), with a ring buffer of the last packets (\<^verbatim>\<open>internal/model/ringbuffer.go\<close>) and what its DNS
  parser (\<^verbatim>\<open>internal/parser/dns.go\<close>) finds; a second loop closes idle flows. The dashboard
  (\<^verbatim>\<open>internal/tui/dashboard.go\<close>), driven by the messages of bubbletea, lists, sorts and filters the flows, which it shares
  with the aggregator by pointer, and draws its screens. \<^verbatim>\<open>cmd/jopil/main.go\<close> starts and stops all of it.

  \<^bold>\<open>The theories.\<close>
  \<^item> \<open>Prelude\<close>: the shared vocabulary. Panics are values (\<^typ>\<open>'a go\<close>); a map is an association list whose visiting
    order is an argument; \<open>GoFloat\<close>: \<open>float64\<close> as rationals rounded to 53 bits, and the printing of decimals;
    \<open>Sorting\<close>: the interface of \<open>sort.Slice\<close> (locale \<open>slice_sort\<close>) and Go's insertion sort, which provides it;
    \<open>Transitions\<close>: executions of a step relation and invariants over their traces.
  \<^item> \<open>RingBuffer\<close> (\<^verbatim>\<open>ringbuffer.go\<close>; locale \<open>bounded_log\<close>), \<open>StatusLog\<close> (\<^verbatim>\<open>monitor.go\<close>, the status messages) and \<open>Throughput\<close> (the samples of
    the dashboard) each interpret the log interface: the newest entries are kept.
  \<^item> \<open>Packet\<close> (\<^verbatim>\<open>packet.go\<close>, \<^verbatim>\<open>stats.go\<close>): the records, addresses and protocol names; \<open>Dns\<close> (\<^verbatim>\<open>dns.go\<close>): the parser, with every
    index and slice expression checked; \<open>Reader\<close> (\<^verbatim>\<open>monitor.go\<close>): start-up and its clean-up, the read loop,
    the interface watcher, the decoder; \<open>Xdp\<close> (\<^verbatim>\<open>packet.c\<close>): the XDP program on a frame of bytes.
  \<^item> \<open>Aggregator\<close> (\<^verbatim>\<open>aggregator.go\<close>): the operations over a store that the flow pointers index. \<open>FlowSpec\<close> says what the flow of a
    list of packets must hold, \<open>AggregatorProps\<close> proves the simulation of grouping packets into conversations, and
    \<open>Conversations\<close> holds its properties.
  \<^item> \<open>Pipeline\<close>: the goroutines (read loop, watcher, aggregate loop, time-out loop) and \<open>main\<close> as one step relation, whose
    executions are all interleavings: no event is lost or counted twice, and everything stops.
    \<open>Startup\<close> (\<^verbatim>\<open>main.go\<close>) leads from the options to its initial state, or to an exit.
  \<^item> \<open>Dashboard\<close> (\<^verbatim>\<open>dashboard.go\<close>, state and handlers), \<open>SharedStore\<close> and \<open>DashboardProps\<close> (the invariant \<open>dash_ok\<close>, refreshing), \<open>DashboardInv\<close>
    (every handler keeps the invariant; \<open>run_system\<close>: packets, sweeps, messages and frames in any order) and
    \<open>DashboardResults\<close> (the properties of that system). \<open>RefreshSteps\<close> splits \<open>updateFlows\<close> into its loads and stores of the
    shared flows (\<open>refresh_access\<close>) and lets the aggregator act between any two of them (\<open>run_fine\<close>); the lemma \<open>uninterrupted_refresh\<close> says that
    the whole operation is the run of these accesses that nothing interrupts.
  \<^item> \<open>Format\<close> (text helpers), \<open>Widgets\<close> and \<open>View\<close> (every \<open>render\<close> function and \<open>View\<close>); \<open>ViewSafe\<close>: drawing does not panic and keeps the
    invariant; \<open>FormatProps\<close>, \<open>ViewResults\<close> and \<open>WidgetResults\<close>: what is printed.

  \<^bold>\<open>What the theorems show.\<close> The aggregator holds exactly one flow for each live conversation, with the counters, ports, history and
  state that its packets determine, in every interleaving with the reader and the sweeps, and with the dashboard as long as no copy of
  a field is torn (the aggregator changes the field between the dashboard's load and its store into the same flow); a torn copy does lose
  packets, which is proved too;
  events are conserved; shutting down terminates; the parsers never read out of bounds; the dashboard does not panic on a terminal of at
  least eight columns by three rows, and a refresh that is not interrupted shows exactly the live flows. Some theorems state what the code does where it departs from its
  documentation: addresses are reversed, DNS queries are never seen, the protocol filter lasts
  until the next refresh, a failed reading of the kernel's counters makes a spike, a tiny terminal makes drawing panic, a failed start
  is silent, a refresh overwrites counters.

  \<^bold>\<open>Modelling decisions.\<close> The operating system, the eBPF loader, the clock, the visiting orders of maps, \<open>sort.Slice\<close>, the local time zone
  and lipgloss are arguments; hypotheses on them state their documented behaviour. Machine integers are words; lengths and screen positions,
  which stay far from the bounds of \<open>int\<close>, are integers. Operations that hold a mutex are one step; the
  refresh of the dashboard, which holds none while it writes the shared flows, is modelled access by access as well. \<open>GoFloat\<close> covers the finite range the program
  uses. A loop that runs until a condition is a step of the relation in \<open>Pipeline\<close>; all other loops are recursions over lists, so no
  fuel is needed, except for the two search loops of the filter dialog, whose counter is the length of the list they search.

  \<^bold>\<open>Not modelled.\<close> The generated eBPF bindings (\<^verbatim>\<open>bpf_bpfel.go\<close>, \<^verbatim>\<open>bpf_bpfeb.go\<close>); the parsing of the command line, which is the
  \<open>flag\<close> package's, and the last-resort handler of \<^verbatim>\<open>main.go\<close> that resets the terminal after a panic; the manual test \<^verbatim>\<open>test_ebpf.go\<close>. The accesses of the dashboard to the flows are
  interleaved in program order with the operations of the aggregator: what else a data race may do in Go (a slice header
  read half written, stores seen out of order) is not modelled. Handlers other than the refresh only read the flows, and each reads them at one moment. The four loops of \<open>Pipeline\<close> and
  the dashboard are separate relations: they share the aggregator, whose operations both interleave.
\<close>

end
